theory Spec2Isabelle
  imports Main "HOL-Library.Word"
begin

unbundle bit_operations_syntax

section \<open>Static determinacy-race detection for Tapir tasks (TapirRaceDetect.cpp)\<close>

text \<open>
  A shallow embedding of the parts of \<^verbatim>\<open>llvm/lib/Analysis/TapirRaceDetect.cpp\<close> that decide
  whether two memory accesses race: the maybe-parallel-tasks dataflow step
  (\<^verbatim>\<open>MaybeParallelTasksInLoopBody::evaluate\<close>), the pairwise evaluator
  (\<^verbatim>\<open>evaluateMaybeParallelAccesses\<close> with \<^verbatim>\<open>checkOpaqueAccesses\<close>,
  \<^verbatim>\<open>underlyingObjectsAlias\<close>, \<^verbatim>\<open>PointerCapturedBefore\<close> and \<^verbatim>\<open>checkDependence\<close>), and
  the recording of races (\<^verbatim>\<open>recordLocalRace\<close>, \<^verbatim>\<open>recordAncestorRace\<close>, \<^verbatim>\<open>recordOpaqueRace\<close>,
  \<^verbatim>\<open>checkForRacesHelper\<close>).

  The services the file consumes from the rest of LLVM (alias analysis, dependence
  analysis, capture tracking, loop and task structure) are parameters of the model: fields
  of the records \<open>LoopInfo\<close>, \<open>TaskInfo\<close> and \<open>Env\<close>. Every theorem holds for all values of
  these parameters unless it states a hypothesis about them.
\<close>

subsection \<open>Program entities\<close>

type_synonym BasicBlock = nat
type_synonym Instruction = nat
type_synonym Task = nat
type_synonym Spindle = nat
type_synonym SyncRegion = nat

text \<open>
  A loop of the loop nest, with its parent loop. \<^verbatim>\<open>Loop::getLoopDepth\<close> counts the loop
  and its ancestors, so that an outermost loop has depth 1.
\<close>

datatype Loop = Loop (loop_id: nat) (getParentLoop: "Loop option")

fun getLoopDepth :: "Loop \<Rightarrow> nat" where
  "getLoopDepth (Loop n None) = 1"
| "getLoopDepth (Loop n (Some p)) = Suc (getLoopDepth p)"

text \<open>The depth of a possibly null loop pointer: \<^verbatim>\<open>L ? L->getLoopDepth() : 0\<close>.\<close>

definition depthOf :: "Loop option \<Rightarrow> nat" where
  "depthOf L = (case L of None \<Rightarrow> 0 | Some l \<Rightarrow> getLoopDepth l)"

text \<open>
  The kinds of LLVM value the detector distinguishes with \<^verbatim>\<open>isa<>\<close> and \<^verbatim>\<open>dyn_cast<>\<close>, each
  with the attributes the detector reads from it.
\<close>

datatype Intrinsic = threadlocal_address | other_intrinsic nat

datatype Linkage = PrivateLinkage | InternalLinkage | OtherLinkage

datatype Value =
    ConstantPointerNull nat
      \<comment> \<open>address space\<close>
  | Argument nat bool bool bool
      \<comment> \<open>argument number, \<^verbatim>\<open>hasByValAttr\<close>, \<^verbatim>\<open>hasStructRetAttr\<close>, \<^verbatim>\<open>hasInAllocaAttr\<close>\<close>
  | GlobalVariable nat bool Linkage bool
      \<comment> \<open>name, \<^verbatim>\<open>isConstant\<close>, linkage, \<^verbatim>\<open>isThreadLocal\<close>\<close>
  | GlobalValueOther nat bool
      \<comment> \<open>a function, alias or ifunc: name, \<^verbatim>\<open>isThreadLocal\<close>\<close>
  | ConstantExpr nat
  | ConstantOther nat
  | AllocaInst Instruction
  | CallBase Instruction "Intrinsic option" bool
      \<comment> \<open>the call, its intrinsic ID when it is an \<^verbatim>\<open>IntrinsicInst\<close>, \<^verbatim>\<open>returnDoesNotAlias\<close>\<close>
  | InstructionOther Instruction
  | ValueOther nat

fun isConstantPointerNull :: "Value \<Rightarrow> bool" where
  "isConstantPointerNull (ConstantPointerNull a) = True"
| "isConstantPointerNull v = False"

fun isGlobalValue :: "Value \<Rightarrow> bool" where
  "isGlobalValue (GlobalVariable n c l t) = True"
| "isGlobalValue (GlobalValueOther n t) = True"
| "isGlobalValue v = False"

fun isInstruction :: "Value \<Rightarrow> bool" where
  "isInstruction (AllocaInst i) = True"
| "isInstruction (CallBase i ii r) = True"
| "isInstruction (InstructionOther i) = True"
| "isInstruction v = False"

fun isAllocaInst :: "Value \<Rightarrow> bool" where
  "isAllocaInst (AllocaInst i) = True"
| "isAllocaInst v = False"

fun isThreadLocalObject :: "Value \<Rightarrow> bool" where
  "isThreadLocalObject (CallBase i (Some ii) r) = (ii = threadlocal_address)"
| "isThreadLocalObject (GlobalVariable n c l t) = t"
| "isThreadLocalObject (GlobalValueOther n t) = t"
| "isThreadLocalObject v = False"

datatype ModRefInfo = NoModRef | Ref | Mod | ModRef

fun isModSet :: "ModRefInfo \<Rightarrow> bool" where
  "isModSet Mod = True"
| "isModSet ModRef = True"
| "isModSet m = False"

fun isRefSet :: "ModRefInfo \<Rightarrow> bool" where
  "isRefSet Ref = True"
| "isRefSet ModRef = True"
| "isRefSet m = False"

text \<open>The bitwise union \<^verbatim>\<open>|=\<close> of two \<^verbatim>\<open>ModRefInfo\<close> values.\<close>

definition unionModRef :: "ModRefInfo \<Rightarrow> ModRefInfo \<Rightarrow> ModRefInfo" where
  "unionModRef a b =
     (if isModSet a \<or> isModSet b
      then (if isRefSet a \<or> isRefSet b then ModRef else Mod)
      else (if isRefSet a \<or> isRefSet b then Ref else NoModRef))"

datatype AliasResult = NoAlias | MayAlias | PartialAlias | MustAlias

record MemoryLocation =
  Ptr :: Value
  Size :: "nat option"
  AATags :: nat

text \<open>\<^verbatim>\<open>MemoryLocation::getBeforeOrAfter\<close>: the location with its size dropped.\<close>

definition getBeforeOrAfter :: "Value \<Rightarrow> nat \<Rightarrow> MemoryLocation" where
  "getBeforeOrAfter p tags = \<lparr>Ptr = p, Size = None, AATags = tags\<rparr>"

text \<open>
  Modelled from the spec: the access record \<^verbatim>\<open>GeneralAccess\<close> is declared in
  \<^verbatim>\<open>llvm/Analysis/TapirRaceDetect.h\<close>, which is not among the sources. The spec gives it
  an owning operation, an optional location (none for an opaque access), a mod/ref
  classification and an optional argument index; \<open>getPtr\<close> is the pointer of the location,
  null when there is no location.
\<close>

record GeneralAccess =
  GA_I :: Instruction
  GA_Loc :: "MemoryLocation option"
  GA_OperandNum :: "nat option"
  GA_ModRef :: ModRefInfo

definition getPtr :: "GeneralAccess \<Rightarrow> Value option" where
  "getPtr GA = map_option Ptr (GA_Loc GA)"

definition isMod :: "GeneralAccess \<Rightarrow> bool" where
  "isMod GA = isModSet (GA_ModRef GA)"

definition isRef :: "GeneralAccess \<Rightarrow> bool" where
  "isRef GA = isRefSet (GA_ModRef GA)"

text \<open>\<^verbatim>\<open>MemAccessInfo(GA.getPtr(), GA.isMod())\<close>, the key of the access-to-objects map.\<close>

type_synonym MemAccessInfo = "Value option \<times> bool"

definition memAccessInfo :: "GeneralAccess \<Rightarrow> MemAccessInfo" where
  "memAccessInfo GA = (getPtr GA, isMod GA)"

text \<open>
  A dependence as the dependence oracle reports it: per loop level, a direction (the
  three-bit field of \<^verbatim>\<open>Dependence::DVEntry\<close>: LT = 1, EQ = 2, GT = 4) and whether the
  dependence is scalar at that level.
\<close>

record Dependence =
  getDirection :: "nat \<Rightarrow> 3 word"
  isScalar :: "nat \<Rightarrow> bool"

definition DVEntry_EQ :: "3 word" where
  "DVEntry_EQ = 2"

subsection \<open>The services consumed\<close>

record LoopInfo =
  getLoopFor :: "BasicBlock \<Rightarrow> Loop option"
  getHeader :: "Loop \<Rightarrow> BasicBlock"
  loopContains :: "Loop \<Rightarrow> BasicBlock \<Rightarrow> bool"

record TaskInfo =
  getTaskFor :: "BasicBlock \<Rightarrow> Task"
  getSpindleFor :: "BasicBlock \<Rightarrow> Spindle"
  getEnclosingTask :: "BasicBlock \<Rightarrow> BasicBlock \<Rightarrow> Task"
  encloses :: "Task \<Rightarrow> BasicBlock \<Rightarrow> bool"
  getSubTaskEnclosing :: "Task \<Rightarrow> BasicBlock \<Rightarrow> Task"
  isRootTask :: "Task \<Rightarrow> bool"
  getDetachContinue :: "Task \<Rightarrow> BasicBlock"
  getDetachSyncRegion :: "Task \<Rightarrow> SyncRegion option"
  taskEntry :: "Task \<Rightarrow> BasicBlock"
  spindleEntry :: "Spindle \<Rightarrow> BasicBlock"
  isSharedEH :: "Spindle \<Rightarrow> bool"
  in_edges :: "Spindle \<Rightarrow> (Spindle \<times> BasicBlock) list"
  syncRegionOfTerminator :: "BasicBlock \<Rightarrow> SyncRegion option"
  depthFirstTasks :: "Task \<Rightarrow> Task list"

text \<open>
  \<open>getDetachSyncRegion T\<close> is \<^verbatim>\<open>T->getDetach()->getSyncRegion()\<close>, \<open>None\<close> when the task has
  no detach (the root task); \<open>getDetachContinue T\<close> is \<^verbatim>\<open>T->getDetach()->getContinue()\<close>;
  \<open>syncRegionOfTerminator B\<close> is the sync region of the terminator of \<open>B\<close> when that
  terminator is a \<^verbatim>\<open>SyncInst\<close>, \<open>None\<close> otherwise; \<open>depthFirstTasks T\<close> is the sequence
  \<^verbatim>\<open>depth_first(T)\<close> of \<open>T\<close> and its subtasks.
\<close>

subsection \<open>The maybe-parallel-tasks dataflow step\<close>

text \<open>
  \<^verbatim>\<open>MPTaskListTy\<close> maps a spindle to the set of tasks that may run in parallel with it.
  The map is a \<^verbatim>\<open>DenseMap\<close>: \<^verbatim>\<open>try_emplace\<close> and \<^verbatim>\<open>operator[]\<close> create an empty set for a
  spindle that has none. A set is kept as a list without repetitions.
\<close>

type_synonym MPTaskListTy = "Spindle \<rightharpoonup> Task list"

definition taskListOf :: "MPTaskListTy \<Rightarrow> Spindle \<Rightarrow> Task list" where
  "taskListOf TL S = (case TL S of None \<Rightarrow> [] | Some ts \<Rightarrow> ts)"

text \<open>\<^verbatim>\<open>TaskList.try_emplace(S)\<close> and the entry creation of \<^verbatim>\<open>TaskList[S]\<close>.\<close>

definition try_emplace :: "MPTaskListTy \<Rightarrow> Spindle \<Rightarrow> MPTaskListTy" where
  "try_emplace TL S = (case TL S of None \<Rightarrow> TL(S \<mapsto> []) | Some ts \<Rightarrow> TL)"

text \<open>
  \<^verbatim>\<open>TaskList[S].insert(MP).second\<close>: the task is added when it is new, and the flag says
  whether it was.
\<close>

definition insertTask :: "MPTaskListTy \<Rightarrow> Spindle \<Rightarrow> Task \<Rightarrow> bool \<times> MPTaskListTy" where
  "insertTask TL S MP =
     (if MP \<in> set (taskListOf TL S) then (False, TL)
      else (True, TL(S \<mapsto> taskListOf TL S @ [MP])))"

text \<open>
  The inner loop of \<^verbatim>\<open>evaluate\<close> over the tasks of one predecessor: a task synced by the
  sync region of the incoming edge is filtered out, every other task is inserted into the
  set of \<open>S\<close>, and \<open>Complete\<close> becomes false when an insertion is new.
\<close>

fun insertTasks ::
  "TaskInfo \<Rightarrow> SyncRegion option \<Rightarrow> Spindle \<Rightarrow> Task list \<Rightarrow> bool \<times> MPTaskListTy
   \<Rightarrow> bool \<times> MPTaskListTy" where
  "insertTasks TI SyncRegSynced S [] (Complete, TL) = (Complete, TL)"
| "insertTasks TI SyncRegSynced S (MP # MPs) (Complete, TL) =
     (if getDetachSyncRegion TI MP \<noteq> None \<and> SyncRegSynced = getDetachSyncRegion TI MP
      then insertTasks TI SyncRegSynced S MPs (Complete, TL)
      else (case insertTask TL S MP of
              (new, TL') \<Rightarrow>
                insertTasks TI SyncRegSynced S MPs (if new then False else Complete, TL')))"

text \<open>
  The loop of \<^verbatim>\<open>evaluate\<close> over the incoming edges of \<open>S\<close>. An edge that is a back edge of
  the loop headed by \<open>S\<close> is skipped.
\<close>

fun evaluateEdges ::
  "LoopInfo \<Rightarrow> TaskInfo \<Rightarrow> Spindle \<Rightarrow> (Spindle \<times> BasicBlock) list \<Rightarrow> bool \<times> MPTaskListTy
   \<Rightarrow> bool \<times> MPTaskListTy" where
  "evaluateEdges LI TI S [] (Complete, TL) = (Complete, TL)"
| "evaluateEdges LI TI S ((Pred, Inc) # edges) (Complete, TL) =
     (let SyncRegSynced = syncRegionOfTerminator TI Inc in
      if (case getLoopFor LI (spindleEntry TI S) of
            None \<Rightarrow> False
          | Some L \<Rightarrow> getHeader LI L = spindleEntry TI S \<and> loopContains LI L Inc)
      then evaluateEdges LI TI S edges (Complete, TL)
      else evaluateEdges LI TI S edges
             (insertTasks TI SyncRegSynced S (taskListOf TL Pred)
                (Complete, try_emplace TL Pred)))"

text \<open>
  \<^verbatim>\<open>MaybeParallelTasksInLoopBody::evaluate(S, EvalNum)\<close>: the new task lists and the flag
  \<open>Complete\<close>. The argument \<^verbatim>\<open>EvalNum\<close> is not used by the source.
\<close>

definition evaluate ::
  "LoopInfo \<Rightarrow> TaskInfo \<Rightarrow> Spindle \<Rightarrow> nat \<Rightarrow> MPTaskListTy \<Rightarrow> bool \<times> MPTaskListTy" where
  "evaluate LI TI S EvalNum TL =
     evaluateEdges LI TI S (in_edges TI S) (True, try_emplace TL S)"

subsection \<open>Analysis state and remaining services\<close>

text \<open>
  The alias oracle, the capture oracle, the dependence oracle and the instruction queries,
  together with the tables the analysis has built before the pairwise evaluation starts
  (they are only read from then on): the access-to-objects map, the accesses of each
  spindle and task, and the two maybe-parallel task lists (with and without loop back
  edges). \<open>AssumeSafeMalloc\<close> and \<open>MaxUsesToExploreCapture\<close> are the command-line options of
  the same names; \<open>isAllocFnCall\<close> is \<^verbatim>\<open>isAllocFn(Call, TLI)\<close> on a call.
\<close>

record Env =
  LI :: LoopInfo
  TI :: TaskInfo
  AA_alias :: "MemoryLocation \<Rightarrow> MemoryLocation \<Rightarrow> AliasResult"
  getUnderlyingObject :: "Value \<Rightarrow> Value"
  isIdentifiedObject :: "Value \<Rightarrow> bool"
  stripInBoundsOffsets :: "Value \<Rightarrow> Value"
  PointerMayBeCapturedBefore ::
    "Value \<Rightarrow> bool \<Rightarrow> bool \<Rightarrow> Instruction \<Rightarrow> bool \<Rightarrow> nat \<Rightarrow> bool"
  MaxUsesToExploreCapture :: nat
  NullPointerIsDefined :: "nat \<Rightarrow> bool"
  mayWriteToMemory :: "Instruction \<Rightarrow> bool"
  getParent :: "Instruction \<Rightarrow> BasicBlock"
  depends :: "GeneralAccess \<Rightarrow> GeneralAccess \<Rightarrow> Dependence option"
  AccessToObjs :: "MemAccessInfo \<Rightarrow> Value list"
  MPTasks :: MPTaskListTy
  MPTasksInLoop :: MPTaskListTy
  SpindleAccessMap :: "Spindle \<Rightarrow> GeneralAccess list"
  TaskAccessMap :: "Task \<Rightarrow> GeneralAccess list"
  AssumeSafeMalloc :: bool
  isAllocFnCall :: "Instruction \<Rightarrow> bool"

text \<open>
  Modelled from the spec: the result container \<^verbatim>\<open>RaceInfo::ResultTy\<close> and its methods
  \<^verbatim>\<open>recordLocalRace\<close>, \<^verbatim>\<open>recordRaceViaAncestorRef\<close>, \<^verbatim>\<open>recordRaceViaAncestorMod\<close> and
  \<^verbatim>\<open>recordOpaqueRace\<close> are declared in \<^verbatim>\<open>llvm/Analysis/TapirRaceDetect.h\<close>, which is not among
  the sources. The spec describes a race record as the accessing access, the kind of race
  and an optional racer (absent when no specific racer is named), and the result as the
  accumulated records; recording appends one record.
\<close>

datatype RaceType = Local | ViaAncestorRef | ViaAncestorMod | Opaque

record RaceData =
  RD_Access :: GeneralAccess
  RD_Type :: RaceType
  RD_Racer :: "GeneralAccess option"

type_synonym ResultTy = "RaceData list"

definition recordRace ::
  "ResultTy \<Rightarrow> GeneralAccess \<Rightarrow> RaceType \<Rightarrow> GeneralAccess option \<Rightarrow> ResultTy" where
  "recordRace R GA RT Racer = R @ [\<lparr>RD_Access = GA, RD_Type = RT, RD_Racer = Racer\<rparr>]"

text \<open>
  What the analysis mutates while it evaluates pairs: the race records, the per-object
  mod/ref summary and the memoization table of capture queries.
\<close>

record RaceState =
  Result :: ResultTy
  ObjectMRForRace :: "Value \<rightharpoonup> ModRefInfo"
  MayBeCapturedCache :: "(Value \<times> Instruction) \<rightharpoonup> bool"

subsection \<open>Common loops and representative spindles\<close>

text \<open>\<open>climb n L\<close> follows \<^verbatim>\<open>getParentLoop\<close> \<open>n\<close> times, as the two levelling loops do.\<close>

fun climb :: "nat \<Rightarrow> Loop option \<Rightarrow> Loop option" where
  "climb 0 L = L"
| "climb (Suc n) None = None"
| "climb (Suc n) (Some l) = climb n (getParentLoop l)"

text \<open>
  The last loop of \<^verbatim>\<open>getCommonLoop\<close>: both pointers move to their parents until they are
  equal. They are at the same depth when it starts, so they reach null together.
\<close>

fun commonAncestor :: "Loop option \<Rightarrow> Loop option \<Rightarrow> Loop option" where
  "commonAncestor (Some (Loop n1 p1)) (Some (Loop n2 p2)) =
     (if Loop n1 p1 = Loop n2 p2 then Some (Loop n1 p1) else commonAncestor p1 p2)"
| "commonAncestor L1 L2 = None"

definition commonLoopOf :: "Loop option \<Rightarrow> Loop option \<Rightarrow> Loop option" where
  "commonLoopOf L1 L2 =
     commonAncestor (climb (depthOf L1 - depthOf L2) L1) (climb (depthOf L2 - depthOf L1) L2)"

text \<open>\<^verbatim>\<open>getCommonLoop(B1, B2, LI)\<close> and \<^verbatim>\<open>getCommonLoop(L, B, LI)\<close>.\<close>

definition getCommonLoop :: "LoopInfo \<Rightarrow> BasicBlock \<Rightarrow> BasicBlock \<Rightarrow> Loop option" where
  "getCommonLoop li B1 B2 = commonLoopOf (getLoopFor li B1) (getLoopFor li B2)"

definition getCommonLoopL :: "LoopInfo \<Rightarrow> Loop \<Rightarrow> BasicBlock \<Rightarrow> Loop option" where
  "getCommonLoopL li L B = commonLoopOf (Some L) (getLoopFor li B)"

definition GetRepSpindleInTask :: "TaskInfo \<Rightarrow> Spindle \<Rightarrow> Task \<Rightarrow> Spindle" where
  "GetRepSpindleInTask ti S T =
     (let Encl = getSubTaskEnclosing ti T (spindleEntry ti S) in
      if isRootTask ti Encl then S
      else getSpindleFor ti (getDetachContinue ti Encl))"

text \<open>\<open>anyEncloses ti B ts\<close>: some task of the list encloses block \<open>B\<close>.\<close>

definition anyEncloses :: "TaskInfo \<Rightarrow> BasicBlock \<Rightarrow> Task list \<Rightarrow> bool" where
  "anyEncloses ti B ts = list_ex (\<lambda>MPT. encloses ti MPT B) ts"

subsection \<open>Capture queries and underlying-object disambiguation\<close>

text \<open>
  \<^verbatim>\<open>AccessPtrAnalysis::PointerCapturedBefore(Ptr, I, MaxUsesToExplore)\<close>, with its
  memoization table passed in and returned. A null pointer is never captured and is not
  entered into the table.
\<close>

definition PointerCapturedBefore ::
  "Env \<Rightarrow> ((Value \<times> Instruction) \<rightharpoonup> bool) \<Rightarrow> Value \<Rightarrow> Instruction \<Rightarrow> nat
   \<Rightarrow> bool \<times> ((Value \<times> Instruction) \<rightharpoonup> bool)" where
  "PointerCapturedBefore env cache P I MaxUsesToExplore =
     (let StrippedPtr = stripInBoundsOffsets env P in
      if isConstantPointerNull StrippedPtr then (False, cache)
      else (case cache (StrippedPtr, I) of
              Some r \<Rightarrow> (r, cache)
            | None \<Rightarrow>
                (let R = (if isGlobalValue StrippedPtr then True
                          else if \<not> isInstruction StrippedPtr then True
                          else PointerMayBeCapturedBefore env StrippedPtr False False I True
                                 MaxUsesToExplore)
                 in (R, cache((StrippedPtr, I) \<mapsto> R)))))"

text \<open>
  \<^verbatim>\<open>AccessPtrAnalysis::underlyingObjectsAlias(GAA, GAB)\<close>. The source dereferences the
  locations of both accesses; the caller has checked that they are present and passes
  them, with the instruction of each access. The two capture queries are evaluated left
  to right with the short-circuit of \<^verbatim>\<open>&&\<close> and \<^verbatim>\<open>||\<close>.
\<close>

definition underlyingObjectsAlias ::
  "Env \<Rightarrow> ((Value \<times> Instruction) \<rightharpoonup> bool) \<Rightarrow> MemoryLocation \<Rightarrow> Instruction
   \<Rightarrow> MemoryLocation \<Rightarrow> Instruction \<Rightarrow> AliasResult \<times> ((Value \<times> Instruction) \<rightharpoonup> bool)" where
  "underlyingObjectsAlias env cache LocA IA LocB IB =
     (let LocAS = getBeforeOrAfter (Ptr LocA) (AATags LocA);
          LocBS = getBeforeOrAfter (Ptr LocB) (AATags LocB)
      in if AA_alias env LocAS LocBS = NoAlias then (NoAlias, cache)
         else
           (let AObj = getUnderlyingObject env (Ptr LocA);
                BObj = getUnderlyingObject env (Ptr LocB)
            in if AObj = BObj then (MustAlias, cache)
               else if \<not> isIdentifiedObject env AObj \<or> \<not> isIdentifiedObject env BObj then
                 (case (if isIdentifiedObject env AObj
                        then (case PointerCapturedBefore env cache AObj IB
                                     (MaxUsesToExploreCapture env) of
                                (c, cache1) \<Rightarrow> (\<not> c, cache1))
                        else (False, cache)) of
                    (d1, cache1) \<Rightarrow>
                      if d1 then (NoAlias, cache1)
                      else
                        (case (if isIdentifiedObject env BObj
                               then (case PointerCapturedBefore env cache1 BObj IA
                                            (MaxUsesToExploreCapture env) of
                                       (c, cache2) \<Rightarrow> (\<not> c, cache2))
                               else (False, cache1)) of
                           (d2, cache2) \<Rightarrow>
                             if d2 then (NoAlias, cache2) else (MayAlias, cache2)))
               else (NoAlias, cache)))"

subsection \<open>The loop-crossing test\<close>

text \<open>
  The block shared by \<^verbatim>\<open>checkDependence\<close> and \<^verbatim>\<open>checkOpaqueAccesses\<close>: the representative
  spindles of both blocks in their common task, and the maximum loop depth to check once
  the common loop has been replaced by the loop of the common task where the common loop
  does not contain that task. The step is skipped when a representative spindle is a
  shared-EH spindle.
\<close>

definition repSpindle :: "Env \<Rightarrow> BasicBlock \<Rightarrow> BasicBlock \<Rightarrow> BasicBlock \<Rightarrow> Spindle" where
  "repSpindle env B B1 B2 =
     GetRepSpindleInTask (TI env) (getSpindleFor (TI env) B) (getEnclosingTask (TI env) B1 B2)"

definition boundByCommonTask ::
  "Env \<Rightarrow> BasicBlock \<Rightarrow> BasicBlock \<Rightarrow> Loop \<Rightarrow> nat \<Rightarrow> Loop option \<times> nat" where
  "boundByCommonTask env B1 B2 CL MinObjDepth =
     (let CommonTask = getEnclosingTask (TI env) B1 B2;
          I1Spindle = repSpindle env B1 B1 B2;
          I2Spindle = repSpindle env B2 B1 B2
      in if \<not> isSharedEH (TI env) I1Spindle \<and> \<not> isSharedEH (TI env) I2Spindle then
           (let CommonLoop =
                  (if \<not> loopContains (LI env) CL (taskEntry (TI env) CommonTask)
                   then getLoopFor (LI env) (taskEntry (TI env) CommonTask)
                   else Some CL);
                MaxLoopDepthToCheck = depthOf CommonLoop
            in (CommonLoop, if MaxLoopDepthToCheck = 0 then MinObjDepth else MaxLoopDepthToCheck))
         else (Some CL, getLoopDepth CL))"

text \<open>
  Whether the two blocks are parallel when loop back edges are excluded from the
  dataflow: a task of the in-loop task list of one representative spindle encloses the
  other block.
\<close>

definition parallelInLoopBody :: "Env \<Rightarrow> BasicBlock \<Rightarrow> BasicBlock \<Rightarrow> bool" where
  "parallelInLoopBody env B1 B2 =
     (anyEncloses (TI env) B2 (taskListOf (MPTasksInLoop env) (repSpindle env B1 B1 B2))
      \<or> anyEncloses (TI env) B1 (taskListOf (MPTasksInLoop env) (repSpindle env B2 B1 B2)))"

text \<open>
  The part of \<^verbatim>\<open>checkOpaqueAccesses\<close> after the capture query (``we check the logical
  parallelism of the access''), where the minimum object depth is 0.
\<close>

definition opaqueLoopCrossing :: "Env \<Rightarrow> GeneralAccess \<Rightarrow> GeneralAccess \<Rightarrow> bool" where
  "opaqueLoopCrossing env GA1 GA2 =
     (let B1 = getParent env (GA_I GA1);
          B2 = getParent env (GA_I GA2);
          MinObjDepth = 0
      in case getCommonLoop (LI env) B1 B2 of
           None \<Rightarrow> True
         | Some CL \<Rightarrow>
             (case boundByCommonTask env B1 B2 CL MinObjDepth of
                (CommonLoop, MaxLoopDepthToCheck) \<Rightarrow>
                  if MaxLoopDepthToCheck = MinObjDepth then
                    (if getTaskFor (TI env) B1 = getTaskFor (TI env) B2 then False
                     else if MaxLoopDepthToCheck = 0 then True
                     else parallelInLoopBody env B1 B2)
                  else True))"

text \<open>\<^verbatim>\<open>AccessPtrAnalysis::checkOpaqueAccesses(GA1, GA2)\<close>.\<close>

definition checkOpaqueAccesses ::
  "Env \<Rightarrow> ((Value \<times> Instruction) \<rightharpoonup> bool) \<Rightarrow> GeneralAccess \<Rightarrow> GeneralAccess
   \<Rightarrow> bool \<times> ((Value \<times> Instruction) \<rightharpoonup> bool)" where
  "checkOpaqueAccesses env cache GA1 GA2 =
     (if \<not> mayWriteToMemory env (GA_I GA1) \<and> \<not> mayWriteToMemory env (GA_I GA2)
      then (False, cache)
      else
        (case (GA_Loc GA1, GA_Loc GA2) of
           (None, None) \<Rightarrow> (True, cache)
         | (Some L1, _) \<Rightarrow>
             (case PointerCapturedBefore env cache (Ptr L1) (GA_I GA1)
                     (MaxUsesToExploreCapture env) of
                (captured, cache') \<Rightarrow>
                  if \<not> captured then (False, cache')
                  else (opaqueLoopCrossing env GA1 GA2, cache'))
         | (None, Some L2) \<Rightarrow>
             (case PointerCapturedBefore env cache (Ptr L2) (GA_I GA2)
                     (MaxUsesToExploreCapture env) of
                (captured, cache') \<Rightarrow>
                  if \<not> captured then (False, cache')
                  else (opaqueLoopCrossing env GA1 GA2, cache'))))"

subsection \<open>The dependence check\<close>

text \<open>
  The two loops of \<^verbatim>\<open>checkDependence\<close> that collect the base objects shared by both
  accesses: an object of one access that the other access does not have sets the minimum
  object depth to 0 and leaves the loop.
\<close>

definition insertObj :: "Value list \<Rightarrow> Value \<Rightarrow> Value list" where
  "insertObj BaseObjs Obj = (if Obj \<in> set BaseObjs then BaseObjs else BaseObjs @ [Obj])"

fun collectBaseObjs :: "Value list \<Rightarrow> Value list \<Rightarrow> Value list \<times> nat \<Rightarrow> Value list \<times> nat" where
  "collectBaseObjs [] other (BaseObjs, MinObjDepth) = (BaseObjs, MinObjDepth)"
| "collectBaseObjs (Obj # objs) other (BaseObjs, MinObjDepth) =
     (if Obj \<in> set other
      then collectBaseObjs objs other (insertObj BaseObjs Obj, MinObjDepth)
      else (BaseObjs, 0))"

text \<open>
  The loop over the base objects that narrows the common-object loop: only an
  \<^verbatim>\<open>alloca\<close> or a call whose result does not alias keeps a common-object loop.
\<close>

fun refineCommonObjLoop :: "Env \<Rightarrow> Value list \<Rightarrow> Loop option \<Rightarrow> Loop option" where
  "refineCommonObjLoop env [] CommonObjLoop = CommonObjLoop"
| "refineCommonObjLoop env (Obj # objs) None = None"
| "refineCommonObjLoop env (Obj # objs) (Some L) =
     (case Obj of
        AllocaInst i \<Rightarrow>
          refineCommonObjLoop env objs (getCommonLoopL (LI env) L (getParent env i))
      | CallBase i ii noalias \<Rightarrow>
          if \<not> noalias then None
          else refineCommonObjLoop env objs (getCommonLoopL (LI env) L (getParent env i))
      | _ \<Rightarrow> None)"

text \<open>
  The minimum object depth that \<^verbatim>\<open>checkDependence\<close> computes from the common loop \<open>CL\<close>
  of the two accesses (lines 892 to 967 of the source).
\<close>

definition minObjDepthOf :: "Env \<Rightarrow> GeneralAccess \<Rightarrow> GeneralAccess \<Rightarrow> Loop \<Rightarrow> nat" where
  "minObjDepthOf env GA1 GA2 CL =
     (let Objs1 = AccessToObjs env (memAccessInfo GA1);
          Objs2 = AccessToObjs env (memAccessInfo GA2)
      in case collectBaseObjs Objs2 Objs1
                (collectBaseObjs Objs1 Objs2 ([], getLoopDepth CL)) of
           (BaseObjs, MinObjDepth0) \<Rightarrow>
             (let CommonObjLoop0 = (if BaseObjs = [] then None else Some CL);
                  MinObjDepth1 =
                    (if BaseObjs = [] \<or> CommonObjLoop0 = None then 0 else MinObjDepth0);
                  CommonObjLoop =
                    (if MinObjDepth1 \<noteq> 0 then refineCommonObjLoop env BaseObjs CommonObjLoop0
                     else CommonObjLoop0)
              in depthOf CommonObjLoop))"

text \<open>The stack of loops from a loop up to the outermost one.\<close>

fun loopStack :: "Loop option \<Rightarrow> Loop list" where
  "loopStack None = []"
| "loopStack (Some (Loop n p)) = Loop n p # loopStack p"

text \<open>
  The top-down scan of the loop stack (the list starts at the outermost loop): the
  minimum loop depth to check is the first level, not above the minimum object depth,
  where a maybe-parallel task of the spindle of the loop header encloses \<open>B2\<close>.
\<close>

fun findMinLoopDepth :: "Env \<Rightarrow> BasicBlock \<Rightarrow> nat \<Rightarrow> Loop list \<Rightarrow> nat \<Rightarrow> nat" where
  "findMinLoopDepth env B2 MinObjDepth [] MinLoopDepthToCheck = MinLoopDepthToCheck"
| "findMinLoopDepth env B2 MinObjDepth (CurrLoop # rest) MinLoopDepthToCheck =
     (if MinLoopDepthToCheck < MinObjDepth
      then findMinLoopDepth env B2 MinObjDepth rest (Suc MinLoopDepthToCheck)
      else if anyEncloses (TI env) B2
                (taskListOf (MPTasks env)
                   (getSpindleFor (TI env) (getHeader (LI env) CurrLoop)))
      then MinLoopDepthToCheck
      else findMinLoopDepth env B2 MinObjDepth rest (Suc MinLoopDepthToCheck))"

text \<open>
  The inside-out scan \<^verbatim>\<open>for (II = MaxLoopDepthToCheck; II >= MinLoopDepthToCheck; --II)\<close>.
  The minimum is at least 1 in the source, so level 0 is never inspected.
\<close>

fun scanLevels :: "Dependence \<Rightarrow> nat \<Rightarrow> nat \<Rightarrow> bool" where
  "scanLevels D MinLoopDepthToCheck 0 = False"
| "scanLevels D MinLoopDepthToCheck (Suc n) =
     (if Suc n < MinLoopDepthToCheck then False
      else if isScalar D (Suc n) then True
      else if getDirection D (Suc n) AND NOT DVEntry_EQ \<noteq> 0 then True
      else scanLevels D MinLoopDepthToCheck n)"

text \<open>\<^verbatim>\<open>AccessPtrAnalysis::checkDependence(D, GA1, GA2)\<close>; a null \<open>D\<close> is \<open>None\<close>.\<close>

definition checkDependence ::
  "Env \<Rightarrow> Dependence option \<Rightarrow> GeneralAccess \<Rightarrow> GeneralAccess \<Rightarrow> bool" where
  "checkDependence env D GA1 GA2 =
     (case D of
        None \<Rightarrow> False
      | Some d \<Rightarrow>
          (let B1 = getParent env (GA_I GA1);
               B2 = getParent env (GA_I GA2)
           in case getCommonLoop (LI env) B1 B2 of
                None \<Rightarrow> True
              | Some CL \<Rightarrow>
                  (let MinObjDepth = minObjDepthOf env GA1 GA2 CL in
                   case boundByCommonTask env B1 B2 CL MinObjDepth of
                     (CommonLoop, MaxLoopDepthToCheck) \<Rightarrow>
                       if MaxLoopDepthToCheck = MinObjDepth then
                         (if getTaskFor (TI env) B1 = getTaskFor (TI env) B2 then False
                          else if MaxLoopDepthToCheck = 0 then True
                          else if getDirection d MaxLoopDepthToCheck AND DVEntry_EQ = 0
                          then False
                          else parallelInLoopBody env B1 B2)
                       else
                         scanLevels d
                           (findMinLoopDepth env B2 MinObjDepth (rev (loopStack CommonLoop)) 1)
                           MaxLoopDepthToCheck)))"

subsection \<open>Recording a local race\<close>

text \<open>\<^verbatim>\<open>setObjectMRForRace(ObjectMRForRace, Ptr, MRI)\<close>.\<close>

definition setObjectMRForRace ::
  "(Value \<rightharpoonup> ModRefInfo) \<Rightarrow> Value \<Rightarrow> ModRefInfo \<Rightarrow> (Value \<rightharpoonup> ModRefInfo)" where
  "setObjectMRForRace M P MRI =
     M(P \<mapsto> unionModRef (case M P of None \<Rightarrow> NoModRef | Some m \<Rightarrow> m) MRI)"

text \<open>The body of the loop of \<^verbatim>\<open>recordLocalRace\<close> over the objects of the access.\<close>

definition localRaceObj ::
  "GeneralAccess \<Rightarrow> Value \<Rightarrow> (Value \<rightharpoonup> ModRefInfo) \<Rightarrow> (Value \<rightharpoonup> ModRefInfo)" where
  "localRaceObj GA Obj M =
     setObjectMRForRace (if isMod GA then setObjectMRForRace M Obj Ref else M) Obj Mod"

text \<open>\<^verbatim>\<open>AccessPtrAnalysis::recordLocalRace(GA, Result, ObjectMRForRace, Racer)\<close>.\<close>

definition recordLocalRace ::
  "Env \<Rightarrow> GeneralAccess \<Rightarrow> RaceState \<Rightarrow> GeneralAccess \<Rightarrow> RaceState" where
  "recordLocalRace env GA st Racer =
     (let st1 = st\<lparr>Result := recordRace (Result st) GA Local (Some Racer)\<rparr> in
      case getPtr GA of
        None \<Rightarrow> st1
      | Some p \<Rightarrow>
          st1\<lparr>ObjectMRForRace :=
                fold (localRaceObj GA) (AccessToObjs env (memAccessInfo GA))
                  (ObjectMRForRace st1)\<rparr>)"

subsection \<open>The pairwise evaluator\<close>

text \<open>
  The decision of \<^verbatim>\<open>evaluateMaybeParallelAccesses\<close>: the value of \<^verbatim>\<open>LocalRace\<close> when the
  function reaches its last statement, and false on each early return.
\<close>

definition isUndefinedNull :: "Env \<Rightarrow> Value \<Rightarrow> bool" where
  "isUndefinedNull env P =
     (case P of ConstantPointerNull a \<Rightarrow> \<not> NullPointerIsDefined env a | _ \<Rightarrow> False)"

definition decideLocalRace ::
  "Env \<Rightarrow> ((Value \<times> Instruction) \<rightharpoonup> bool) \<Rightarrow> GeneralAccess \<Rightarrow> GeneralAccess
   \<Rightarrow> bool \<times> ((Value \<times> Instruction) \<rightharpoonup> bool)" where
  "decideLocalRace env cache GA1 GA2 =
     (if \<not> isMod GA1 \<and> \<not> isMod GA2 then (False, cache)
      else
        (case (GA_Loc GA1, GA_Loc GA2) of
           (Some L1, Some L2) \<Rightarrow>
             if isUndefinedNull env (Ptr L1) then (False, cache)
             else if isUndefinedNull env (Ptr L2) then (False, cache)
             else
               (case underlyingObjectsAlias env cache L1 (GA_I GA1) L2 (GA_I GA2) of
                  (AR, cache') \<Rightarrow>
                    if AR = NoAlias then (False, cache')
                    else if isThreadLocalObject (Ptr L1) \<and> isThreadLocalObject (Ptr L2)
                    then (False, cache')
                    else (checkDependence env (depends env GA1 GA2) GA1 GA2, cache'))
         | _ \<Rightarrow> checkOpaqueAccesses env cache GA1 GA2))"

text \<open>
  \<^verbatim>\<open>AccessPtrAnalysis::evaluateMaybeParallelAccesses(GA1, GA2, Result, ObjectMRForRace)\<close>.
\<close>

definition evaluateMaybeParallelAccesses ::
  "Env \<Rightarrow> GeneralAccess \<Rightarrow> GeneralAccess \<Rightarrow> RaceState \<Rightarrow> RaceState" where
  "evaluateMaybeParallelAccesses env GA1 GA2 st =
     (case decideLocalRace env (MayBeCapturedCache st) GA1 GA2 of
        (LocalRace, cache') \<Rightarrow>
          (let st' = st\<lparr>MayBeCapturedCache := cache'\<rparr> in
           if LocalRace
           then recordLocalRace env GA2 (recordLocalRace env GA1 st' GA2) GA1
           else st'))"

subsection \<open>Races with ancestors and opaque races\<close>

text \<open>
  \<^verbatim>\<open>recordAncestorRace(GA, Ptr, Result, ObjectMRForRace)\<close> and
  \<^verbatim>\<open>recordOpaqueRace(GA, Ptr, Result, ObjectMRForRace)\<close>, both with the default racer, an
  empty \<^verbatim>\<open>GeneralAccess()\<close>, which is \<open>None\<close> here.
\<close>

definition recordAncestorRace :: "GeneralAccess \<Rightarrow> Value \<Rightarrow> RaceState \<Rightarrow> RaceState" where
  "recordAncestorRace GA P st =
     (let st1 = (if isMod GA
                 then st\<lparr>Result := recordRace (Result st) GA ViaAncestorRef None,
                         ObjectMRForRace := setObjectMRForRace (ObjectMRForRace st) P Ref\<rparr>
                 else st)
      in st1\<lparr>Result := recordRace (Result st1) GA ViaAncestorMod None,
             ObjectMRForRace := setObjectMRForRace (ObjectMRForRace st1) P Mod\<rparr>)"

definition recordOpaqueRace :: "GeneralAccess \<Rightarrow> Value \<Rightarrow> RaceState \<Rightarrow> RaceState" where
  "recordOpaqueRace GA P st =
     (let st1 = (if isMod GA
                 then st\<lparr>Result := recordRace (Result st) GA Opaque None,
                         ObjectMRForRace := setObjectMRForRace (ObjectMRForRace st) P Ref\<rparr>
                 else st)
      in st1\<lparr>Result := recordRace (Result st1) GA Opaque None,
             ObjectMRForRace := setObjectMRForRace (ObjectMRForRace st1) P Mod\<rparr>)"

text \<open>\<^verbatim>\<open>isAllocFn(const Value *V, TLI)\<close>: only a call can be an allocation function.\<close>

definition isAllocFn :: "Env \<Rightarrow> Value \<Rightarrow> bool" where
  "isAllocFn env V = (case V of CallBase i ii r \<Rightarrow> isAllocFnCall env i | _ \<Rightarrow> False)"

text \<open>
  The body of the loop of \<^verbatim>\<open>checkForRacesHelper\<close> over the underlying objects of one
  access (lines 1446 to 1507). The assertion that a global variable is not constant is
  compiled out of a release build and has no counterpart here.
\<close>

definition checkObject :: "Env \<Rightarrow> GeneralAccess \<Rightarrow> Value \<Rightarrow> RaceState \<Rightarrow> RaceState" where
  "checkObject env GA Obj st =
     (if isAllocaInst Obj then st
      else if AssumeSafeMalloc env \<and> isAllocFn env Obj then st
      else
        (case Obj of
           Argument n byval sret inalloca \<Rightarrow>
             if byval \<or> sret \<or> inalloca then st
             else recordAncestorRace GA Obj st
         | GlobalVariable n c l t \<Rightarrow>
             if l = PrivateLinkage \<or> l = InternalLinkage
             then recordAncestorRace GA Obj st
             else recordOpaqueRace GA Obj st
         | _ \<Rightarrow> recordOpaqueRace GA Obj st))"

text \<open>The loop over the accesses of a spindle (lines 1436 to 1510).\<close>

definition checkAccess :: "Env \<Rightarrow> GeneralAccess \<Rightarrow> RaceState \<Rightarrow> RaceState" where
  "checkAccess env GA st =
     (case getPtr GA of
        None \<Rightarrow> st
      | Some p \<Rightarrow> fold (checkObject env GA) (AccessToObjs env (memAccessInfo GA)) st)"

definition checkSpindleAccesses :: "Env \<Rightarrow> Spindle \<Rightarrow> RaceState \<Rightarrow> RaceState" where
  "checkSpindleAccesses env S st = fold (checkAccess env) (SpindleAccessMap env S) st"

text \<open>
  The loop over the maybe-parallel tasks of a spindle (lines 1511 to 1518): every access
  of the spindle is evaluated against every access of every task in the subtree of every
  maybe-parallel task.
\<close>

definition checkSpindleAgainstTasks :: "Env \<Rightarrow> Spindle \<Rightarrow> RaceState \<Rightarrow> RaceState" where
  "checkSpindleAgainstTasks env S st =
     fold (\<lambda>MPT. fold (\<lambda>SubMPT. fold (\<lambda>GA1. fold (\<lambda>GA2. evaluateMaybeParallelAccesses env GA1 GA2)
                                               (TaskAccessMap env SubMPT))
                                  (SpindleAccessMap env S))
                  (depthFirstTasks (TI env) MPT))
          (taskListOf (MPTasks env) S) st"

text \<open>
  The task hierarchy that \<^verbatim>\<open>checkForRacesHelper\<close> walks: a task, its spindles in the order
  of \<^verbatim>\<open>depth_first<InTask<Spindle *>>(T->getEntrySpindle())\<close>, and for each spindle its
  successors \<open>Succ\<close> with \<^verbatim>\<open>S->succInSubTask(Succ)\<close>, each with the hierarchy of
  \<^verbatim>\<open>Succ->getParentTask()\<close>. A subtask is strictly below its parent, so the hierarchy is a
  finite tree and the recursion of \<^verbatim>\<open>checkForRacesHelper\<close> follows it.
\<close>

datatype TaskTree = TaskTree Task "(Spindle \<times> (Spindle \<times> TaskTree) list) list"

text \<open>
  \<^verbatim>\<open>AccessPtrAnalysis::checkForRacesHelper(T, Result, ObjectMRForRace)\<close>. The set
  \<^verbatim>\<open>Visited\<close> is local to one call and is threaded through the spindles of the task.
\<close>

fun checkForRacesHelper :: "Env \<Rightarrow> TaskTree \<Rightarrow> RaceState \<Rightarrow> RaceState"
  and checkSpindles ::
    "Env \<Rightarrow> (Spindle \<times> (Spindle \<times> TaskTree) list) list \<Rightarrow> Spindle list \<Rightarrow> RaceState
     \<Rightarrow> RaceState"
  and checkSuccessors ::
    "Env \<Rightarrow> (Spindle \<times> TaskTree) list \<Rightarrow> Spindle list \<Rightarrow> RaceState
     \<Rightarrow> Spindle list \<times> RaceState" where
  "checkForRacesHelper env (TaskTree T spindles) st = checkSpindles env spindles [] st"
| "checkSpindles env [] Visited st = st"
| "checkSpindles env ((S, succs) # rest) Visited st =
     (case checkSuccessors env succs Visited
             (checkSpindleAgainstTasks env S (checkSpindleAccesses env S st)) of
        (Visited', st') \<Rightarrow> checkSpindles env rest Visited' st')"
| "checkSuccessors env [] Visited st = (Visited, st)"
| "checkSuccessors env ((Succ, sub) # rest) Visited st =
     (if Succ \<in> set Visited then checkSuccessors env rest Visited st
      else checkSuccessors env rest (Succ # Visited) (checkForRacesHelper env sub st))"

subsection \<open>A small procedure\<close>

text \<open>
  A procedure on which the theorems below are instantiated. The root task 0 detaches
  task 1 from block 0; block 1 is the body of task 1, block 2 the continuation of the
  detach, which ends with the sync of region 0, and block 3 follows the sync. Every block
  is its own spindle, instruction \<open>i\<close> lies in block \<open>i\<close>, and task 1 may run in parallel
  with the continuation spindle 2.
\<close>

definition exLI :: LoopInfo where
  "exLI = \<lparr>getLoopFor = (\<lambda>B. None), getHeader = (\<lambda>L. 0), loopContains = (\<lambda>L B. False)\<rparr>"

definition exTI :: TaskInfo where
  "exTI =
     \<lparr>getTaskFor = (\<lambda>B. if B = 1 then 1 else 0),
      getSpindleFor = (\<lambda>B. B),
      getEnclosingTask = (\<lambda>B1 B2. if B1 = 1 \<and> B2 = 1 then 1 else 0),
      encloses = (\<lambda>T B. T = 0 \<or> B = 1),
      getSubTaskEnclosing = (\<lambda>T B. if B = 1 then 1 else T),
      isRootTask = (\<lambda>T. T = 0),
      getDetachContinue = (\<lambda>T. 2),
      getDetachSyncRegion = (\<lambda>T. if T = 1 then Some 0 else None),
      taskEntry = (\<lambda>T. T),
      spindleEntry = (\<lambda>S. S),
      isSharedEH = (\<lambda>S. False),
      in_edges = (\<lambda>S. if S = 1 then [(0, 0)]
                       else if S = 2 then [(0, 0)]
                       else if S = 3 then [(2, 2)] else []),
      syncRegionOfTerminator = (\<lambda>B. if B = 2 then Some 0 else None),
      depthFirstTasks = (\<lambda>T. if T = 0 then [0, 1] else [T])\<rparr>"

text \<open>A dependence with every direction at every level, nowhere scalar.\<close>

definition exDep :: Dependence where
  "exDep = \<lparr>getDirection = (\<lambda>l. 7), isScalar = (\<lambda>l. False)\<rparr>"

definition exObjs :: "MemAccessInfo \<Rightarrow> Value list" where
  "exObjs MA = (case fst MA of None \<Rightarrow> [] | Some V \<Rightarrow> [V])"

definition exEnv :: Env where
  "exEnv =
     \<lparr>LI = exLI, TI = exTI,
      AA_alias = (\<lambda>A B. MayAlias),
      getUnderlyingObject = (\<lambda>V. V),
      isIdentifiedObject = (\<lambda>V. isAllocaInst V \<or> isGlobalValue V),
      stripInBoundsOffsets = (\<lambda>V. V),
      PointerMayBeCapturedBefore = (\<lambda>V rc sc I inc m. True),
      MaxUsesToExploreCapture = 4294967295,
      NullPointerIsDefined = (\<lambda>a. False),
      mayWriteToMemory = (\<lambda>I. True),
      getParent = (\<lambda>I. I),
      depends = (\<lambda>A B. Some exDep),
      AccessToObjs = exObjs,
      MPTasks = [2 \<mapsto> [1]],
      MPTasksInLoop = [2 \<mapsto> [1]],
      SpindleAccessMap = (\<lambda>S. []),
      TaskAccessMap = (\<lambda>T. []),
      AssumeSafeMalloc = True,
      isAllocFnCall = (\<lambda>I. False)\<rparr>"

definition exState :: RaceState where
  "exState = \<lparr>Result = [], ObjectMRForRace = Map.empty, MayBeCapturedCache = Map.empty\<rparr>"

text \<open>An access of instruction \<open>I\<close> to pointer \<open>P\<close>, and an opaque access of \<open>I\<close>.\<close>

definition exAccess :: "Instruction \<Rightarrow> Value \<Rightarrow> ModRefInfo \<Rightarrow> GeneralAccess" where
  "exAccess I P MR =
     \<lparr>GA_I = I, GA_Loc = Some \<lparr>Ptr = P, Size = Some 4, AATags = 0\<rparr>,
      GA_OperandNum = None, GA_ModRef = MR\<rparr>"

definition exOpaque :: "Instruction \<Rightarrow> ModRefInfo \<Rightarrow> GeneralAccess" where
  "exOpaque I MR = \<lparr>GA_I = I, GA_Loc = None, GA_OperandNum = None, GA_ModRef = MR\<rparr>"

definition exLoc :: "Value \<Rightarrow> MemoryLocation" where
  "exLoc P = \<lparr>Ptr = P, Size = Some 4, AATags = 0\<rparr>"

definition exTLS :: Value where
  "exTLS = GlobalVariable 7 False OtherLinkage True"

definition exArg :: Value where
  "exArg = Argument 0 False False False"

subsection \<open>Reading the object summary\<close>

text \<open>
  Whether the summary holds the write flag, and the read flag, for an object
  (\<^verbatim>\<open>isModSet\<close> and \<^verbatim>\<open>isRefSet\<close> of its entry; an object without an entry has neither).
\<close>

definition modFlag :: "(Value \<rightharpoonup> ModRefInfo) \<Rightarrow> Value \<Rightarrow> bool" where
  "modFlag M Obj = (case M Obj of None \<Rightarrow> False | Some m \<Rightarrow> isModSet m)"

definition refFlag :: "(Value \<rightharpoonup> ModRefInfo) \<Rightarrow> Value \<Rightarrow> bool" where
  "refFlag M Obj = (case M Obj of None \<Rightarrow> False | Some m \<Rightarrow> isRefSet m)"

text \<open>
  Variants of the procedure: a pointer computed from the thread-local global (its
  underlying object is the global), a capture oracle that reports the pointer captured
  before instruction 2 only, and a loop that contains every block.
\<close>

definition exGEP :: Value where
  "exGEP = InstructionOther 8"

definition exEnvTLS :: Env where
  "exEnvTLS =
     exEnv\<lparr>getUnderlyingObject := (\<lambda>V. if V = exGEP then exTLS else V),
           AccessToObjs := (\<lambda>MA. if fst MA = Some exGEP then [exTLS] else exObjs MA)\<rparr>"

definition exEnvCapture :: Env where
  "exEnvCapture = exEnv\<lparr>PointerMayBeCapturedBefore := (\<lambda>V rc sc I inc m. I = 2)\<rparr>"

definition exLoopLI :: LoopInfo where
  "exLoopLI = \<lparr>getLoopFor = (\<lambda>B. Some (Loop 0 None)), getHeader = (\<lambda>L. 0),
               loopContains = (\<lambda>L B. True)\<rparr>"

definition exEnvLoop :: Env where
  "exEnvLoop = exEnv\<lparr>LI := exLoopLI\<rparr>"

text \<open>
  Accesses of spindle 1, inside the detached task, to a pointer argument, and the task
  hierarchy of the procedure.
\<close>

definition exEnvArgs :: Env where
  "exEnvArgs = exEnv\<lparr>SpindleAccessMap :=
                       (\<lambda>S. if S = 1 then [exAccess 1 exArg Mod, exAccess 1 exArg Ref] else [])\<rparr>"

definition exTree :: TaskTree where
  "exTree = TaskTree 0 [(0, [(1, TaskTree 1 [(1, [])])]), (2, []), (3, [])]"

subsection \<open>Notions used in the statements\<close>

text \<open>
  Task lists are well formed for a set of tasks when every list holds tasks of the set
  only, without repetition. \<open>extends S a b\<close> relates two states of the dataflow step for
  spindle \<open>S\<close>: only the list of \<open>S\<close> differs, by an appended part, and the flag of
  \<open>b\<close> is the flag of \<open>a\<close> unless something was appended.
\<close>

definition wfTaskLists :: "Task set \<Rightarrow> MPTaskListTy \<Rightarrow> bool" where
  "wfTaskLists Tasks TL = (\<forall>s. set (taskListOf TL s) \<subseteq> Tasks \<and> distinct (taskListOf TL s))"

definition extends :: "Spindle \<Rightarrow> bool \<times> MPTaskListTy \<Rightarrow> bool \<times> MPTaskListTy \<Rightarrow> bool" where
  "extends S a b =
     ((\<forall>s. s \<noteq> S \<longrightarrow> taskListOf (snd b) s = taskListOf (snd a) s) \<and>
      (\<exists>ys. taskListOf (snd b) S = taskListOf (snd a) S @ ys \<and> (fst b = (fst a \<and> ys = []))))"

text \<open>The records that \<^verbatim>\<open>recordAncestorRace\<close> and \<^verbatim>\<open>recordOpaqueRace\<close> append.\<close>

definition ancestorModRecord :: "GeneralAccess \<Rightarrow> RaceData" where
  "ancestorModRecord GA = \<lparr>RD_Access = GA, RD_Type = ViaAncestorMod, RD_Racer = None\<rparr>"

definition ancestorRefRecord :: "GeneralAccess \<Rightarrow> RaceData" where
  "ancestorRefRecord GA = \<lparr>RD_Access = GA, RD_Type = ViaAncestorRef, RD_Racer = None\<rparr>"

definition opaqueRecord :: "GeneralAccess \<Rightarrow> RaceData" where
  "opaqueRecord GA = \<lparr>RD_Access = GA, RD_Type = Opaque, RD_Racer = None\<rparr>"

text \<open>
  The spindles that \<^verbatim>\<open>checkForRacesHelper\<close> processes, in order: the spindles of the task
  and, after each spindle, those of the subtasks entered from it that were not visited
  before.
\<close>

fun walkedSpindles :: "TaskTree \<Rightarrow> Spindle list"
  and walkedOfSpindles ::
    "(Spindle \<times> (Spindle \<times> TaskTree) list) list \<Rightarrow> Spindle list \<Rightarrow> Spindle list"
  and walkedOfSuccessors ::
    "(Spindle \<times> TaskTree) list \<Rightarrow> Spindle list \<Rightarrow> Spindle list \<times> Spindle list" where
  "walkedSpindles (TaskTree T spindles) = walkedOfSpindles spindles []"
| "walkedOfSpindles [] Visited = []"
| "walkedOfSpindles ((S, succs) # rest) Visited =
     (case walkedOfSuccessors succs Visited of
        (Visited', ws) \<Rightarrow> S # ws @ walkedOfSpindles rest Visited')"
| "walkedOfSuccessors [] Visited = (Visited, [])"
| "walkedOfSuccessors ((Succ, sub) # rest) Visited =
     (if Succ \<in> set Visited then walkedOfSuccessors rest Visited
      else (case walkedOfSuccessors rest (Succ # Visited) of
              (Visited', ws) \<Rightarrow> (Visited', walkedSpindles sub @ ws)))"

section \<open>Properties of the pairwise evaluator\<close>

lemmas ex_defs = exEnv_def exTI_def exLI_def exDep_def exObjs_def exState_def exAccess_def
  exOpaque_def exLoc_def

text \<open>
  When the decision is negative the evaluator leaves the race records and the object
  summary as they were; when it is positive the evaluator appends two local race records.
\<close>

lemma evaluate_no_race_state:
  "\<not> fst (decideLocalRace env (MayBeCapturedCache st) GA1 GA2) \<Longrightarrow>
   Result (evaluateMaybeParallelAccesses env GA1 GA2 st) = Result st \<and>
   ObjectMRForRace (evaluateMaybeParallelAccesses env GA1 GA2 st) = ObjectMRForRace st"
  by (cases "decideLocalRace env (MayBeCapturedCache st) GA1 GA2")
     (simp add: evaluateMaybeParallelAccesses_def Let_def)

lemma Result_recordLocalRace:
  "Result (recordLocalRace env GA st Racer) =
     Result st @ [\<lparr>RD_Access = GA, RD_Type = Local, RD_Racer = Some Racer\<rparr>]"
  by (simp add: recordLocalRace_def recordRace_def Let_def split: option.splits)

lemma evaluate_race_result:
  "fst (decideLocalRace env (MayBeCapturedCache st) GA1 GA2) \<Longrightarrow>
   Result (evaluateMaybeParallelAccesses env GA1 GA2 st) =
     Result st @ [\<lparr>RD_Access = GA1, RD_Type = Local, RD_Racer = Some GA2\<rparr>,
                  \<lparr>RD_Access = GA2, RD_Type = Local, RD_Racer = Some GA1\<rparr>]"
  by (cases "decideLocalRace env (MayBeCapturedCache st) GA1 GA2")
     (simp add: evaluateMaybeParallelAccesses_def Let_def Result_recordLocalRace)

text \<open>
  Claim C1. For two accesses that both have locations, if
  \<^verbatim>\<open>underlyingObjectsAlias\<close> answers \<^verbatim>\<open>NoAlias\<close>, then \<^verbatim>\<open>evaluateMaybeParallelAccesses\<close>
  records no race for the pair: the race records and the object summary are unchanged.
  Nothing is assumed about tasks or loops.
\<close>

theorem noalias_no_race:
  assumes "GA_Loc GA1 = Some L1" and "GA_Loc GA2 = Some L2"
    and "fst (underlyingObjectsAlias env (MayBeCapturedCache st) L1 (GA_I GA1) L2 (GA_I GA2))
           = NoAlias"
  shows "Result (evaluateMaybeParallelAccesses env GA1 GA2 st) = Result st \<and>
         ObjectMRForRace (evaluateMaybeParallelAccesses env GA1 GA2 st) = ObjectMRForRace st"
proof -
  have "\<not> fst (decideLocalRace env (MayBeCapturedCache st) GA1 GA2)"
    using assms
    by (cases "underlyingObjectsAlias env (MayBeCapturedCache st) L1 (GA_I GA1) L2 (GA_I GA2)")
       (simp add: decideLocalRace_def)
  then show ?thesis by (rule evaluate_no_race_state)
qed

text \<open>
  The theorem on two writes, in parallel tasks and with a reported dependence, to two
  different stack allocations.
\<close>

theorem noalias_no_race_witness:
  "GA_Loc (exAccess 2 (AllocaInst 5) Mod) = Some (exLoc (AllocaInst 5)) \<and>
   GA_Loc (exAccess 1 (AllocaInst 6) Mod) = Some (exLoc (AllocaInst 6)) \<and>
   fst (underlyingObjectsAlias exEnv (MayBeCapturedCache exState) (exLoc (AllocaInst 5))
          (GA_I (exAccess 2 (AllocaInst 5) Mod)) (exLoc (AllocaInst 6))
          (GA_I (exAccess 1 (AllocaInst 6) Mod))) = NoAlias \<and>
   Result (evaluateMaybeParallelAccesses exEnv (exAccess 2 (AllocaInst 5) Mod)
             (exAccess 1 (AllocaInst 6) Mod) exState) = Result exState \<and>
   ObjectMRForRace (evaluateMaybeParallelAccesses exEnv (exAccess 2 (AllocaInst 5) Mod)
             (exAccess 1 (AllocaInst 6) Mod) exState) = ObjectMRForRace exState"
proof -
  have h1: "GA_Loc (exAccess 2 (AllocaInst 5) Mod) = Some (exLoc (AllocaInst 5))"
    by (simp add: exAccess_def exLoc_def)
  have h2: "GA_Loc (exAccess 1 (AllocaInst 6) Mod) = Some (exLoc (AllocaInst 6))"
    by (simp add: exAccess_def exLoc_def)
  have h3: "fst (underlyingObjectsAlias exEnv (MayBeCapturedCache exState)
          (exLoc (AllocaInst 5)) (GA_I (exAccess 2 (AllocaInst 5) Mod)) (exLoc (AllocaInst 6))
          (GA_I (exAccess 1 (AllocaInst 6) Mod))) = NoAlias"
    by (simp add: underlyingObjectsAlias_def getBeforeOrAfter_def ex_defs)
  show ?thesis using h1 h2 h3 noalias_no_race [OF h1 h2 h3] by simp
qed

text \<open>
  Claim C2. When neither access is a write, \<^verbatim>\<open>evaluateMaybeParallelAccesses\<close> records no
  race and changes nothing: this holds when neither access is \<^verbatim>\<open>Mod\<close>, and it holds for a
  pair with an opaque access when neither instruction may write to memory.
\<close>

theorem read_read_no_race:
  "(\<not> isMod GA1 \<and> \<not> isMod GA2 \<longrightarrow> evaluateMaybeParallelAccesses env GA1 GA2 st = st) \<and>
   ((GA_Loc GA1 = None \<or> GA_Loc GA2 = None) \<and>
    \<not> mayWriteToMemory env (GA_I GA1) \<and> \<not> mayWriteToMemory env (GA_I GA2) \<longrightarrow>
      evaluateMaybeParallelAccesses env GA1 GA2 st = st)"
  by (auto simp add: evaluateMaybeParallelAccesses_def decideLocalRace_def
     checkOpaqueAccesses_def split: option.splits)

text \<open>
  The theorem on two reads of one stack allocation, and on two opaque calls that are
  classified \<^verbatim>\<open>ModRef\<close> while neither instruction may write to memory.
\<close>

theorem read_read_no_race_witness:
  "(\<not> isMod (exAccess 2 (AllocaInst 5) Ref) \<and> \<not> isMod (exAccess 1 (AllocaInst 5) Ref)) \<and>
   evaluateMaybeParallelAccesses exEnv (exAccess 2 (AllocaInst 5) Ref)
     (exAccess 1 (AllocaInst 5) Ref) exState = exState \<and>
   ((GA_Loc (exOpaque 2 ModRef) = None \<or> GA_Loc (exOpaque 1 ModRef) = None) \<and>
    \<not> mayWriteToMemory (exEnv\<lparr>mayWriteToMemory := (\<lambda>I. False)\<rparr>) (GA_I (exOpaque 2 ModRef)) \<and>
    \<not> mayWriteToMemory (exEnv\<lparr>mayWriteToMemory := (\<lambda>I. False)\<rparr>) (GA_I (exOpaque 1 ModRef))) \<and>
   evaluateMaybeParallelAccesses (exEnv\<lparr>mayWriteToMemory := (\<lambda>I. False)\<rparr>)
     (exOpaque 2 ModRef) (exOpaque 1 ModRef) exState = exState"
  using read_read_no_race [of "exAccess 2 (AllocaInst 5) Ref" "exAccess 1 (AllocaInst 5) Ref"
      exEnv exState]
    read_read_no_race [of "exOpaque 2 ModRef" "exOpaque 1 ModRef"
      "exEnv\<lparr>mayWriteToMemory := (\<lambda>I. False)\<rparr>" exState]
  by (simp add: isMod_def exAccess_def exOpaque_def)

text \<open>
  Claim C4 speaks of accesses that resolve to thread-local objects. The evaluator does
  not look at the objects an access resolves to: it tests the pointer of the access.
  Two writes in parallel tasks through a pointer computed from a thread-local global,
  whose underlying object is that global, are recorded as a race.
\<close>

theorem thread_local_underlying_object_counterexample:
  "getUnderlyingObject exEnvTLS exGEP = exTLS \<and>
   AccessToObjs exEnvTLS (memAccessInfo (exAccess 2 exGEP Mod)) = [exTLS] \<and>
   AccessToObjs exEnvTLS (memAccessInfo (exAccess 1 exGEP Mod)) = [exTLS] \<and>
   isThreadLocalObject exTLS \<and>
   Result (evaluateMaybeParallelAccesses exEnvTLS (exAccess 2 exGEP Mod)
             (exAccess 1 exGEP Mod) exState) =
     [\<lparr>RD_Access = exAccess 2 exGEP Mod, RD_Type = Local,
        RD_Racer = Some (exAccess 1 exGEP Mod)\<rparr>,
      \<lparr>RD_Access = exAccess 1 exGEP Mod, RD_Type = Local,
        RD_Racer = Some (exAccess 2 exGEP Mod)\<rparr>]"
proof -
  let ?a = "exAccess 2 exGEP Mod" and ?b = "exAccess 1 exGEP Mod"
  have d: "fst (decideLocalRace exEnvTLS (MayBeCapturedCache exState) ?a ?b)"
    by (simp add: decideLocalRace_def underlyingObjectsAlias_def getBeforeOrAfter_def
          isUndefinedNull_def checkDependence_def getCommonLoop_def commonLoopOf_def
          depthOf_def isMod_def exEnvTLS_def exGEP_def exTLS_def ex_defs)
  have o: "getUnderlyingObject exEnvTLS exGEP = exTLS \<and>
           AccessToObjs exEnvTLS (memAccessInfo ?a) = [exTLS] \<and>
           AccessToObjs exEnvTLS (memAccessInfo ?b) = [exTLS] \<and> isThreadLocalObject exTLS"
    by (simp add: exEnvTLS_def exEnv_def memAccessInfo_def getPtr_def exAccess_def exTLS_def)
  show ?thesis
    using o evaluate_race_result [OF d] by (simp add: exState_def)
qed

text \<open>
  Claim C4, amended. When the pointers of both accesses are themselves thread-local
  objects (a thread-local global, or a call of the \<^verbatim>\<open>threadlocal.address\<close> intrinsic), no
  race is recorded for the pair, whatever the mod/ref classification of the accesses and
  whatever the dependence oracle reports.
\<close>

theorem thread_local_no_race:
  assumes "GA_Loc GA1 = Some L1" and "GA_Loc GA2 = Some L2"
    and "isThreadLocalObject (Ptr L1)" and "isThreadLocalObject (Ptr L2)"
  shows "Result (evaluateMaybeParallelAccesses env GA1 GA2 st) = Result st \<and>
         ObjectMRForRace (evaluateMaybeParallelAccesses env GA1 GA2 st) = ObjectMRForRace st"
proof -
  have "\<not> fst (decideLocalRace env (MayBeCapturedCache st) GA1 GA2)"
    using assms
    by (cases "underlyingObjectsAlias env (MayBeCapturedCache st) L1 (GA_I GA1) L2 (GA_I GA2)")
       (simp add: decideLocalRace_def)
  then show ?thesis by (rule evaluate_no_race_state)
qed

text \<open>
  The theorem on two writes to one thread-local global, in parallel tasks and with a
  reported dependence.
\<close>

theorem thread_local_no_race_witness:
  "GA_Loc (exAccess 2 exTLS Mod) = Some (exLoc exTLS) \<and>
   GA_Loc (exAccess 1 exTLS Mod) = Some (exLoc exTLS) \<and>
   isThreadLocalObject (Ptr (exLoc exTLS)) \<and>
   isMod (exAccess 2 exTLS Mod) \<and> isMod (exAccess 1 exTLS Mod) \<and>
   depends exEnv (exAccess 2 exTLS Mod) (exAccess 1 exTLS Mod) = Some exDep \<and>
   Result (evaluateMaybeParallelAccesses exEnv (exAccess 2 exTLS Mod)
             (exAccess 1 exTLS Mod) exState) = Result exState \<and>
   ObjectMRForRace (evaluateMaybeParallelAccesses exEnv (exAccess 2 exTLS Mod)
             (exAccess 1 exTLS Mod) exState) = ObjectMRForRace exState"
proof -
  have h1: "GA_Loc (exAccess 2 exTLS Mod) = Some (exLoc exTLS)"
    by (simp add: exAccess_def exLoc_def)
  have h2: "GA_Loc (exAccess 1 exTLS Mod) = Some (exLoc exTLS)"
    by (simp add: exAccess_def exLoc_def)
  have h3: "isThreadLocalObject (Ptr (exLoc exTLS))"
    by (simp add: exLoc_def exTLS_def)
  show ?thesis
    using h1 h2 h3 thread_local_no_race [OF h1 h2 h3 h3]
    by (simp add: isMod_def exAccess_def exEnv_def)
qed

text \<open>
  Claim C5 says that a pair of opaque accesses races if and only if one of the two
  instructions may write to memory. The evaluator tests the classification of the
  accesses first: two opaque accesses classified \<^verbatim>\<open>Ref\<close> are dismissed although both
  instructions may write to memory.
\<close>

theorem opaque_pair_may_write_counterexample:
  "GA_Loc (exOpaque 2 Ref) = None \<and> GA_Loc (exOpaque 1 Ref) = None \<and>
   mayWriteToMemory exEnv (GA_I (exOpaque 2 Ref)) \<and>
   mayWriteToMemory exEnv (GA_I (exOpaque 1 Ref)) \<and>
   Result (evaluateMaybeParallelAccesses exEnv (exOpaque 2 Ref) (exOpaque 1 Ref) exState) =
     Result exState"
  by (simp add: evaluateMaybeParallelAccesses_def decideLocalRace_def isMod_def ex_defs)

lemma decide_opaque_pair:
  "GA_Loc GA1 = None \<Longrightarrow> GA_Loc GA2 = None \<Longrightarrow>
   decideLocalRace env cache GA1 GA2 =
     ((isMod GA1 \<or> isMod GA2) \<and>
      (mayWriteToMemory env (GA_I GA1) \<or> mayWriteToMemory env (GA_I GA2)), cache)"
  by (auto simp add: decideLocalRace_def checkOpaqueAccesses_def)

text \<open>
  Claim C5, amended. For a pair of opaque accesses a race is recorded if and only if one
  of the two accesses is classified \<^verbatim>\<open>Mod\<close> and one of the two instructions may write to
  memory; the race is recorded as two local race records.
\<close>

theorem opaque_pair_race_iff:
  assumes "GA_Loc GA1 = None" and "GA_Loc GA2 = None"
  shows "Result (evaluateMaybeParallelAccesses env GA1 GA2 st) =
     (if (isMod GA1 \<or> isMod GA2) \<and>
         (mayWriteToMemory env (GA_I GA1) \<or> mayWriteToMemory env (GA_I GA2))
      then Result st @ [\<lparr>RD_Access = GA1, RD_Type = Local, RD_Racer = Some GA2\<rparr>,
                        \<lparr>RD_Access = GA2, RD_Type = Local, RD_Racer = Some GA1\<rparr>]
      else Result st)"
  using evaluate_race_result [of env st GA1 GA2] evaluate_no_race_state [of env st GA1 GA2]
  by (simp add: decide_opaque_pair [OF assms])

text \<open>The theorem on an opaque read and an opaque write.\<close>

theorem opaque_pair_race_iff_witness:
  "GA_Loc (exOpaque 2 Ref) = None \<and> GA_Loc (exOpaque 1 Mod) = None \<and>
   Result (evaluateMaybeParallelAccesses exEnv (exOpaque 2 Ref) (exOpaque 1 Mod) exState) =
     [\<lparr>RD_Access = exOpaque 2 Ref, RD_Type = Local, RD_Racer = Some (exOpaque 1 Mod)\<rparr>,
      \<lparr>RD_Access = exOpaque 1 Mod, RD_Type = Local, RD_Racer = Some (exOpaque 2 Ref)\<rparr>]"
proof -
  have h1: "GA_Loc (exOpaque 2 Ref) = None" by (simp add: exOpaque_def)
  have h2: "GA_Loc (exOpaque 1 Mod) = None" by (simp add: exOpaque_def)
  have h3: "isMod (exOpaque 1 Mod)" by (simp add: exOpaque_def isMod_def)
  have h4: "mayWriteToMemory exEnv (GA_I (exOpaque 1 Mod))" by (simp add: exEnv_def)
  show ?thesis
    using h1 h2 h3 h4 opaque_pair_race_iff [OF h1 h2, of exEnv exState]
    by (simp add: exState_def)
qed

lemma isModSet_union: "isModSet (unionModRef a b) = (isModSet a \<or> isModSet b)"
  by (simp add: unionModRef_def)

lemma isRefSet_union: "isRefSet (unionModRef a b) = (isRefSet a \<or> isRefSet b)"
  by (simp add: unionModRef_def)

lemma modFlag_set:
  "modFlag (setObjectMRForRace M P MRI) Obj = (modFlag M Obj \<or> (Obj = P \<and> isModSet MRI))"
  by (auto simp add: modFlag_def setObjectMRForRace_def isModSet_union split: option.splits)

lemma refFlag_set:
  "refFlag (setObjectMRForRace M P MRI) Obj = (refFlag M Obj \<or> (Obj = P \<and> isRefSet MRI))"
  by (auto simp add: refFlag_def setObjectMRForRace_def isRefSet_union split: option.splits)

lemma modFlag_localRaceObj:
  "modFlag (localRaceObj GA P M) Obj = (modFlag M Obj \<or> Obj = P)"
  by (simp add: localRaceObj_def modFlag_set)

lemma refFlag_localRaceObj:
  "refFlag (localRaceObj GA P M) Obj = (refFlag M Obj \<or> (Obj = P \<and> isMod GA))"
  by (simp add: localRaceObj_def refFlag_set)

lemma modFlag_fold:
  "modFlag (fold (localRaceObj GA) objs M) Obj = (modFlag M Obj \<or> Obj \<in> set objs)"
  by (induction objs arbitrary: M) (auto simp add: modFlag_localRaceObj)

lemma refFlag_fold:
  "refFlag (fold (localRaceObj GA) objs M) Obj = (refFlag M Obj \<or> (Obj \<in> set objs \<and> isMod GA))"
  by (induction objs arbitrary: M) (auto simp add: refFlag_localRaceObj)

lemma modFlag_recordLocalRace:
  "modFlag (ObjectMRForRace (recordLocalRace env GA st Racer)) Obj =
     (modFlag (ObjectMRForRace st) Obj \<or>
      (getPtr GA \<noteq> None \<and> Obj \<in> set (AccessToObjs env (memAccessInfo GA))))"
  by (auto simp add: recordLocalRace_def Let_def modFlag_fold split: option.splits)

lemma refFlag_recordLocalRace:
  "refFlag (ObjectMRForRace (recordLocalRace env GA st Racer)) Obj =
     (refFlag (ObjectMRForRace st) Obj \<or>
      (getPtr GA \<noteq> None \<and> isMod GA \<and> Obj \<in> set (AccessToObjs env (memAccessInfo GA))))"
  by (auto simp add: recordLocalRace_def Let_def refFlag_fold split: option.splits)

lemma evaluate_race_state:
  "fst (decideLocalRace env (MayBeCapturedCache st) GA1 GA2) \<Longrightarrow>
   evaluateMaybeParallelAccesses env GA1 GA2 st =
     recordLocalRace env GA2
       (recordLocalRace env GA1
          (st\<lparr>MayBeCapturedCache := snd (decideLocalRace env (MayBeCapturedCache st) GA1 GA2)\<rparr>)
          GA2) GA1"
  by (cases "decideLocalRace env (MayBeCapturedCache st) GA1 GA2")
     (simp add: evaluateMaybeParallelAccesses_def Let_def)

text \<open>
  Claim C9. Whenever the pairwise evaluator decides that a pair races, it appends a
  local race record for each of the two accesses with the other access as racer, and for
  each of the two accesses that writes and has a location, every resolved underlying
  object of that access has the write flag in the object summary, and the read flag if
  the access also reads.
\<close>

theorem local_race_recorded:
  assumes "fst (decideLocalRace env (MayBeCapturedCache st) GA1 GA2)"
  shows "Result (evaluateMaybeParallelAccesses env GA1 GA2 st) =
           Result st @ [\<lparr>RD_Access = GA1, RD_Type = Local, RD_Racer = Some GA2\<rparr>,
                        \<lparr>RD_Access = GA2, RD_Type = Local, RD_Racer = Some GA1\<rparr>] \<and>
         (\<forall>GA Obj. (GA = GA1 \<or> GA = GA2) \<and> isMod GA \<and> getPtr GA \<noteq> None \<and>
              Obj \<in> set (AccessToObjs env (memAccessInfo GA)) \<longrightarrow>
            modFlag (ObjectMRForRace (evaluateMaybeParallelAccesses env GA1 GA2 st)) Obj \<and>
            (isRef GA \<longrightarrow>
               refFlag (ObjectMRForRace (evaluateMaybeParallelAccesses env GA1 GA2 st)) Obj))"
proof -
  let ?st' = "evaluateMaybeParallelAccesses env GA1 GA2 st"
  have r: "Result ?st' =
           Result st @ [\<lparr>RD_Access = GA1, RD_Type = Local, RD_Racer = Some GA2\<rparr>,
                        \<lparr>RD_Access = GA2, RD_Type = Local, RD_Racer = Some GA1\<rparr>]"
    using assms by (rule evaluate_race_result)
  have m: "modFlag (ObjectMRForRace ?st') Obj"
    if "GA = GA1 \<or> GA = GA2" and "getPtr GA \<noteq> None"
      and "Obj \<in> set (AccessToObjs env (memAccessInfo GA))" for GA Obj
    using that
    by (auto simp add: evaluate_race_state [OF assms] modFlag_recordLocalRace)
  have f: "refFlag (ObjectMRForRace ?st') Obj"
    if "GA = GA1 \<or> GA = GA2" and "isMod GA" and "getPtr GA \<noteq> None"
      and "Obj \<in> set (AccessToObjs env (memAccessInfo GA))" for GA Obj
    using that
    by (auto simp add: evaluate_race_state [OF assms] refFlag_recordLocalRace)
  show ?thesis using r m f by blast
qed

text \<open>
  The theorem on a read-and-write access and a read of one stack allocation in parallel
  tasks.
\<close>

theorem local_race_recorded_witness:
  "fst (decideLocalRace exEnv (MayBeCapturedCache exState) (exAccess 2 (AllocaInst 5) ModRef)
          (exAccess 1 (AllocaInst 5) Ref)) \<and>
   Result (evaluateMaybeParallelAccesses exEnv (exAccess 2 (AllocaInst 5) ModRef)
             (exAccess 1 (AllocaInst 5) Ref) exState) =
     [\<lparr>RD_Access = exAccess 2 (AllocaInst 5) ModRef, RD_Type = Local,
        RD_Racer = Some (exAccess 1 (AllocaInst 5) Ref)\<rparr>,
      \<lparr>RD_Access = exAccess 1 (AllocaInst 5) Ref, RD_Type = Local,
        RD_Racer = Some (exAccess 2 (AllocaInst 5) ModRef)\<rparr>] \<and>
   isMod (exAccess 2 (AllocaInst 5) ModRef) \<and> isRef (exAccess 2 (AllocaInst 5) ModRef) \<and>
   getPtr (exAccess 2 (AllocaInst 5) ModRef) \<noteq> None \<and>
   AllocaInst 5 \<in> set (AccessToObjs exEnv (memAccessInfo (exAccess 2 (AllocaInst 5) ModRef))) \<and>
   modFlag (ObjectMRForRace (evaluateMaybeParallelAccesses exEnv
      (exAccess 2 (AllocaInst 5) ModRef) (exAccess 1 (AllocaInst 5) Ref) exState))
      (AllocaInst 5) \<and>
   refFlag (ObjectMRForRace (evaluateMaybeParallelAccesses exEnv
      (exAccess 2 (AllocaInst 5) ModRef) (exAccess 1 (AllocaInst 5) Ref) exState))
      (AllocaInst 5)"
proof -
  let ?a = "exAccess 2 (AllocaInst 5) ModRef" and ?b = "exAccess 1 (AllocaInst 5) Ref"
  have h: "fst (decideLocalRace exEnv (MayBeCapturedCache exState) ?a ?b)"
    by (simp add: decideLocalRace_def underlyingObjectsAlias_def getBeforeOrAfter_def
          isUndefinedNull_def checkDependence_def getCommonLoop_def commonLoopOf_def
          depthOf_def isMod_def ex_defs)
  have g: "isMod ?a \<and> isRef ?a \<and> getPtr ?a \<noteq> None \<and>
           AllocaInst 5 \<in> set (AccessToObjs exEnv (memAccessInfo ?a))"
    by (simp add: isMod_def isRef_def getPtr_def memAccessInfo_def ex_defs)
  note t = local_race_recorded [OF h]
  have r: "Result (evaluateMaybeParallelAccesses exEnv ?a ?b exState) =
           [\<lparr>RD_Access = ?a, RD_Type = Local, RD_Racer = Some ?b\<rparr>,
            \<lparr>RD_Access = ?b, RD_Type = Local, RD_Racer = Some ?a\<rparr>]"
    using t by (simp add: exState_def)
  have fl: "modFlag (ObjectMRForRace (evaluateMaybeParallelAccesses exEnv ?a ?b exState))
              (AllocaInst 5) \<and>
            refFlag (ObjectMRForRace (evaluateMaybeParallelAccesses exEnv ?a ?b exState))
              (AllocaInst 5)"
    using t g by blast
  show ?thesis using h g r fl by simp
qed

subsection \<open>One opaque access\<close>

lemma decide_one_opaque:
  assumes "(GA_Loc GA1 = Some L \<and> GA_Loc GA2 = None \<and> NonOpaque = GA_I GA1) \<or>
           (GA_Loc GA1 = None \<and> GA_Loc GA2 = Some L \<and> NonOpaque = GA_I GA2)"
  shows "fst (decideLocalRace env cache GA1 GA2) =
     ((isMod GA1 \<or> isMod GA2) \<and>
      (mayWriteToMemory env (GA_I GA1) \<or> mayWriteToMemory env (GA_I GA2)) \<and>
      fst (PointerCapturedBefore env cache (Ptr L) NonOpaque (MaxUsesToExploreCapture env)) \<and>
      opaqueLoopCrossing env GA1 GA2)"
proof -
  obtain c cache' where
    p: "PointerCapturedBefore env cache (Ptr L) NonOpaque (MaxUsesToExploreCapture env)
          = (c, cache')"
    by (cases "PointerCapturedBefore env cache (Ptr L) NonOpaque (MaxUsesToExploreCapture env)")
  have o: "fst (checkOpaqueAccesses env cache GA1 GA2) =
     ((mayWriteToMemory env (GA_I GA1) \<or> mayWriteToMemory env (GA_I GA2)) \<and> c \<and>
      opaqueLoopCrossing env GA1 GA2)"
    using assms p by (cases c) (auto simp add: checkOpaqueAccesses_def)
  have d: "decideLocalRace env cache GA1 GA2 =
     (if \<not> isMod GA1 \<and> \<not> isMod GA2 then (False, cache)
      else checkOpaqueAccesses env cache GA1 GA2)"
    using assms by (auto simp add: decideLocalRace_def)
  show ?thesis using o d p by auto
qed

text \<open>
  Claim C6 says that a pair with exactly one opaque access races only if the pointer of
  the other access was captured before the operation of the opaque access. The capture
  query is made at the instruction of the access that has the pointer: here the pointer
  is captured before that instruction (2) and not before the opaque call (1), and the
  race is recorded.
\<close>

theorem one_opaque_captured_before_opaque_counterexample:
  "GA_Loc (exAccess 2 (AllocaInst 5) Mod) = Some (exLoc (AllocaInst 5)) \<and>
   GA_Loc (exOpaque 1 ModRef) = None \<and>
   \<not> fst (PointerCapturedBefore exEnvCapture (MayBeCapturedCache exState)
            (Ptr (exLoc (AllocaInst 5))) (GA_I (exOpaque 1 ModRef))
            (MaxUsesToExploreCapture exEnvCapture)) \<and>
   Result (evaluateMaybeParallelAccesses exEnvCapture (exAccess 2 (AllocaInst 5) Mod)
             (exOpaque 1 ModRef) exState) =
     [\<lparr>RD_Access = exAccess 2 (AllocaInst 5) Mod, RD_Type = Local,
        RD_Racer = Some (exOpaque 1 ModRef)\<rparr>,
      \<lparr>RD_Access = exOpaque 1 ModRef, RD_Type = Local,
        RD_Racer = Some (exAccess 2 (AllocaInst 5) Mod)\<rparr>]"
proof -
  let ?a = "exAccess 2 (AllocaInst 5) Mod" and ?b = "exOpaque 1 ModRef"
  have c: "\<not> fst (PointerCapturedBefore exEnvCapture (MayBeCapturedCache exState)
            (Ptr (exLoc (AllocaInst 5))) (GA_I ?b) (MaxUsesToExploreCapture exEnvCapture))"
    by (simp add: PointerCapturedBefore_def exEnvCapture_def ex_defs)
  have d: "fst (decideLocalRace exEnvCapture (MayBeCapturedCache exState) ?a ?b)"
    by (simp add: decideLocalRace_def checkOpaqueAccesses_def PointerCapturedBefore_def
          opaqueLoopCrossing_def getCommonLoop_def commonLoopOf_def depthOf_def isMod_def
          exEnvCapture_def ex_defs)
  show ?thesis
    using c evaluate_race_result [OF d] by (simp add: ex_defs)
qed

text \<open>
  Claim C6, amended. For a pair with exactly one opaque access, a race is recorded if and
  only if one of the accesses is \<^verbatim>\<open>Mod\<close>, one of the instructions may write to memory,
  \<^verbatim>\<open>PointerCapturedBefore\<close> answers true for the pointer of the non-opaque access at the
  instruction of that same access, and the loop-crossing test with minimum object depth
  0 (\<open>opaqueLoopCrossing\<close>) answers true.
\<close>

theorem one_opaque_race_iff:
  assumes "(GA_Loc GA1 = Some L \<and> GA_Loc GA2 = None \<and> NonOpaque = GA_I GA1) \<or>
           (GA_Loc GA1 = None \<and> GA_Loc GA2 = Some L \<and> NonOpaque = GA_I GA2)"
  shows "Result (evaluateMaybeParallelAccesses env GA1 GA2 st) =
     (if (isMod GA1 \<or> isMod GA2) \<and>
         (mayWriteToMemory env (GA_I GA1) \<or> mayWriteToMemory env (GA_I GA2)) \<and>
         fst (PointerCapturedBefore env (MayBeCapturedCache st) (Ptr L) NonOpaque
                (MaxUsesToExploreCapture env)) \<and>
         opaqueLoopCrossing env GA1 GA2
      then Result st @ [\<lparr>RD_Access = GA1, RD_Type = Local, RD_Racer = Some GA2\<rparr>,
                        \<lparr>RD_Access = GA2, RD_Type = Local, RD_Racer = Some GA1\<rparr>]
      else Result st)"
  using evaluate_race_result [of env st GA1 GA2] evaluate_no_race_state [of env st GA1 GA2]
    decide_one_opaque [OF assms, of env "MayBeCapturedCache st"]
  by simp

text \<open>
  The theorem on a write to a stack allocation and an opaque call, in both orders of
  the pair and with two instructions for the write: the pointer is captured before
  instruction 2 and not before instruction 3.
\<close>

theorem one_opaque_race_iff_witness:
  "((GA_Loc (exAccess 2 (AllocaInst 5) Mod) = Some (exLoc (AllocaInst 5)) \<and>
     GA_Loc (exOpaque 1 ModRef) = None \<and> (2::nat) = GA_I (exAccess 2 (AllocaInst 5) Mod))) \<and>
   Result (evaluateMaybeParallelAccesses exEnvCapture (exAccess 2 (AllocaInst 5) Mod)
             (exOpaque 1 ModRef) exState) =
     [\<lparr>RD_Access = exAccess 2 (AllocaInst 5) Mod, RD_Type = Local,
        RD_Racer = Some (exOpaque 1 ModRef)\<rparr>,
      \<lparr>RD_Access = exOpaque 1 ModRef, RD_Type = Local,
        RD_Racer = Some (exAccess 2 (AllocaInst 5) Mod)\<rparr>] \<and>
   Result (evaluateMaybeParallelAccesses exEnvCapture (exOpaque 1 ModRef)
             (exAccess 3 (AllocaInst 5) Mod) exState) = []"
proof -
  let ?a = "exAccess 2 (AllocaInst 5) Mod" and ?b = "exOpaque 1 ModRef"
  let ?c = "exAccess 3 (AllocaInst 5) Mod"
  have h: "(GA_Loc ?a = Some (exLoc (AllocaInst 5)) \<and> GA_Loc ?b = None \<and> 2 = GA_I ?a) \<or>
           (GA_Loc ?a = None \<and> GA_Loc ?b = Some (exLoc (AllocaInst 5)) \<and> 2 = GA_I ?b)"
    by (simp add: ex_defs)
  have h': "(GA_Loc ?b = Some (exLoc (AllocaInst 5)) \<and> GA_Loc ?c = None \<and> 3 = GA_I ?b) \<or>
           (GA_Loc ?b = None \<and> GA_Loc ?c = Some (exLoc (AllocaInst 5)) \<and> 3 = GA_I ?c)"
    by (simp add: ex_defs)
  have r: "Result (evaluateMaybeParallelAccesses exEnvCapture ?a ?b exState) =
     [\<lparr>RD_Access = ?a, RD_Type = Local, RD_Racer = Some ?b\<rparr>,
      \<lparr>RD_Access = ?b, RD_Type = Local, RD_Racer = Some ?a\<rparr>]"
    using one_opaque_race_iff [OF h, of exEnvCapture exState]
    by (simp add: PointerCapturedBefore_def opaqueLoopCrossing_def getCommonLoop_def
          commonLoopOf_def depthOf_def isMod_def exEnvCapture_def ex_defs)
  have r': "Result (evaluateMaybeParallelAccesses exEnvCapture ?b ?c exState) = []"
    using one_opaque_race_iff [OF h', of exEnvCapture exState]
    by (simp add: PointerCapturedBefore_def exEnvCapture_def ex_defs)
  show ?thesis using r r' by (simp add: ex_defs)
qed

subsection \<open>Two writes in one task\<close>

lemma decide_located_pair:
  assumes "GA_Loc GA1 = Some L1" and "GA_Loc GA2 = Some L2"
    and "isMod GA1 \<or> isMod GA2"
    and "\<not> isUndefinedNull env (Ptr L1)" and "\<not> isUndefinedNull env (Ptr L2)"
    and "AA_alias env (getBeforeOrAfter (Ptr L1) (AATags L1))
           (getBeforeOrAfter (Ptr L2) (AATags L2)) \<noteq> NoAlias"
    and "getUnderlyingObject env (Ptr L1) = getUnderlyingObject env (Ptr L2)"
    and "\<not> (isThreadLocalObject (Ptr L1) \<and> isThreadLocalObject (Ptr L2))"
  shows "decideLocalRace env cache GA1 GA2 =
           (checkDependence env (depends env GA1 GA2) GA1 GA2, cache)"
  using assms by (auto simp add: decideLocalRace_def underlyingObjectsAlias_def Let_def)

text \<open>
  Claim C3 says that two writes to the same object in the same task, with no enclosing
  loop and a reported dependence, are classified as no race. \<^verbatim>\<open>checkDependence\<close> returns
  true as soon as the accesses have no common loop, before it compares the tasks: the
  two writes of instructions 2 and 3, both in the root task, are recorded as a race.
\<close>

theorem same_task_no_loop_counterexample:
  "isMod (exAccess 2 (AllocaInst 5) Mod) \<and> isMod (exAccess 3 (AllocaInst 5) Mod) \<and>
   getPtr (exAccess 2 (AllocaInst 5) Mod) = getPtr (exAccess 3 (AllocaInst 5) Mod) \<and>
   getTaskFor (TI exEnv) (getParent exEnv (GA_I (exAccess 2 (AllocaInst 5) Mod))) =
     getTaskFor (TI exEnv) (getParent exEnv (GA_I (exAccess 3 (AllocaInst 5) Mod))) \<and>
   getLoopFor (LI exEnv) (getParent exEnv (GA_I (exAccess 2 (AllocaInst 5) Mod))) = None \<and>
   getLoopFor (LI exEnv) (getParent exEnv (GA_I (exAccess 3 (AllocaInst 5) Mod))) = None \<and>
   depends exEnv (exAccess 2 (AllocaInst 5) Mod) (exAccess 3 (AllocaInst 5) Mod) = Some exDep \<and>
   Result (evaluateMaybeParallelAccesses exEnv (exAccess 2 (AllocaInst 5) Mod)
             (exAccess 3 (AllocaInst 5) Mod) exState) =
     [\<lparr>RD_Access = exAccess 2 (AllocaInst 5) Mod, RD_Type = Local,
        RD_Racer = Some (exAccess 3 (AllocaInst 5) Mod)\<rparr>,
      \<lparr>RD_Access = exAccess 3 (AllocaInst 5) Mod, RD_Type = Local,
        RD_Racer = Some (exAccess 2 (AllocaInst 5) Mod)\<rparr>]"
proof -
  let ?a = "exAccess 2 (AllocaInst 5) Mod" and ?b = "exAccess 3 (AllocaInst 5) Mod"
  have d: "fst (decideLocalRace exEnv (MayBeCapturedCache exState) ?a ?b)"
    by (simp add: decideLocalRace_def underlyingObjectsAlias_def getBeforeOrAfter_def
          isUndefinedNull_def checkDependence_def getCommonLoop_def commonLoopOf_def
          depthOf_def isMod_def ex_defs)
  show ?thesis
    using evaluate_race_result [OF d] by (simp add: isMod_def getPtr_def ex_defs)
qed

text \<open>
  Claim C3, amended. Two writes to the same object (the alias oracle does not separate
  the pointers, which are neither undefined null pointers nor both thread-local) that
  lie in the same task, share no enclosing loop and have a reported dependence are
  classified as a race: \<^verbatim>\<open>checkDependence\<close> returns true at its test for the absence of a
  common loop, and two local race records are appended.
\<close>

theorem same_task_no_loop_race:
  assumes "GA_Loc GA1 = Some L1" and "GA_Loc GA2 = Some L2"
    and "isMod GA1" and "isMod GA2"
    and "\<not> isUndefinedNull env (Ptr L1)" and "\<not> isUndefinedNull env (Ptr L2)"
    and "AA_alias env (getBeforeOrAfter (Ptr L1) (AATags L1))
           (getBeforeOrAfter (Ptr L2) (AATags L2)) \<noteq> NoAlias"
    and "getUnderlyingObject env (Ptr L1) = getUnderlyingObject env (Ptr L2)"
    and "\<not> (isThreadLocalObject (Ptr L1) \<and> isThreadLocalObject (Ptr L2))"
    and "getTaskFor (TI env) (getParent env (GA_I GA1)) =
         getTaskFor (TI env) (getParent env (GA_I GA2))"
    and "getCommonLoop (LI env) (getParent env (GA_I GA1)) (getParent env (GA_I GA2)) = None"
    and "depends env GA1 GA2 = Some D"
  shows "checkDependence env (depends env GA1 GA2) GA1 GA2 \<and>
         Result (evaluateMaybeParallelAccesses env GA1 GA2 st) =
           Result st @ [\<lparr>RD_Access = GA1, RD_Type = Local, RD_Racer = Some GA2\<rparr>,
                        \<lparr>RD_Access = GA2, RD_Type = Local, RD_Racer = Some GA1\<rparr>]"
proof -
  have c: "checkDependence env (depends env GA1 GA2) GA1 GA2"
    using assms(11,12) by (simp add: checkDependence_def)
  have "decideLocalRace env (MayBeCapturedCache st) GA1 GA2 =
          (checkDependence env (depends env GA1 GA2) GA1 GA2, MayBeCapturedCache st)"
    using assms(1-9) by (intro decide_located_pair) auto
  then have "fst (decideLocalRace env (MayBeCapturedCache st) GA1 GA2)"
    using c by simp
  then show ?thesis using c evaluate_race_result by blast
qed

text \<open>
  The theorem on the two writes of instructions 2 and 3 to one stack allocation.
\<close>

theorem same_task_no_loop_race_witness:
  "GA_Loc (exAccess 2 (AllocaInst 5) Mod) = Some (exLoc (AllocaInst 5)) \<and>
   GA_Loc (exAccess 3 (AllocaInst 5) Mod) = Some (exLoc (AllocaInst 5)) \<and>
   isMod (exAccess 2 (AllocaInst 5) Mod) \<and> isMod (exAccess 3 (AllocaInst 5) Mod) \<and>
   getUnderlyingObject exEnv (Ptr (exLoc (AllocaInst 5))) =
     getUnderlyingObject exEnv (Ptr (exLoc (AllocaInst 5))) \<and>
   getTaskFor (TI exEnv) (getParent exEnv (GA_I (exAccess 2 (AllocaInst 5) Mod))) =
     getTaskFor (TI exEnv) (getParent exEnv (GA_I (exAccess 3 (AllocaInst 5) Mod))) \<and>
   getCommonLoop (LI exEnv) (getParent exEnv (GA_I (exAccess 2 (AllocaInst 5) Mod)))
     (getParent exEnv (GA_I (exAccess 3 (AllocaInst 5) Mod))) = None \<and>
   depends exEnv (exAccess 2 (AllocaInst 5) Mod) (exAccess 3 (AllocaInst 5) Mod) = Some exDep \<and>
   checkDependence exEnv
     (depends exEnv (exAccess 2 (AllocaInst 5) Mod) (exAccess 3 (AllocaInst 5) Mod))
     (exAccess 2 (AllocaInst 5) Mod) (exAccess 3 (AllocaInst 5) Mod) \<and>
   Result (evaluateMaybeParallelAccesses exEnv (exAccess 2 (AllocaInst 5) Mod)
             (exAccess 3 (AllocaInst 5) Mod) exState) =
     [\<lparr>RD_Access = exAccess 2 (AllocaInst 5) Mod, RD_Type = Local,
        RD_Racer = Some (exAccess 3 (AllocaInst 5) Mod)\<rparr>,
      \<lparr>RD_Access = exAccess 3 (AllocaInst 5) Mod, RD_Type = Local,
        RD_Racer = Some (exAccess 2 (AllocaInst 5) Mod)\<rparr>]"
proof -
  let ?a = "exAccess 2 (AllocaInst 5) Mod" and ?b = "exAccess 3 (AllocaInst 5) Mod"
  let ?L = "exLoc (AllocaInst 5)"
  have h1: "GA_Loc ?a = Some ?L" by (simp add: exAccess_def exLoc_def)
  have h2: "GA_Loc ?b = Some ?L" by (simp add: exAccess_def exLoc_def)
  have h3: "isMod ?a" by (simp add: isMod_def exAccess_def)
  have h4: "isMod ?b" by (simp add: isMod_def exAccess_def)
  have h5: "\<not> isUndefinedNull exEnv (Ptr ?L)" by (simp add: isUndefinedNull_def exLoc_def)
  have h6: "AA_alias exEnv (getBeforeOrAfter (Ptr ?L) (AATags ?L))
              (getBeforeOrAfter (Ptr ?L) (AATags ?L)) \<noteq> NoAlias"
    by (simp add: exEnv_def)
  have h7: "getUnderlyingObject exEnv (Ptr ?L) = getUnderlyingObject exEnv (Ptr ?L)" by simp
  have h8: "\<not> (isThreadLocalObject (Ptr ?L) \<and> isThreadLocalObject (Ptr ?L))"
    by (simp add: exLoc_def)
  have h9: "getTaskFor (TI exEnv) (getParent exEnv (GA_I ?a)) =
            getTaskFor (TI exEnv) (getParent exEnv (GA_I ?b))"
    by (simp add: ex_defs)
  have h10: "getCommonLoop (LI exEnv) (getParent exEnv (GA_I ?a)) (getParent exEnv (GA_I ?b))
              = None"
    by (simp add: getCommonLoop_def commonLoopOf_def depthOf_def ex_defs)
  have h11: "depends exEnv ?a ?b = Some exDep" by (simp add: exEnv_def)
  note t = same_task_no_loop_race [OF h1 h2 h3 h4 h5 h5 h6 h7 h8 h9 h10 h11, of exState]
  have r: "Result (evaluateMaybeParallelAccesses exEnv ?a ?b exState) =
     [\<lparr>RD_Access = ?a, RD_Type = Local, RD_Racer = Some ?b\<rparr>,
      \<lparr>RD_Access = ?b, RD_Type = Local, RD_Racer = Some ?a\<rparr>]"
    using t by (simp add: exState_def)
  show ?thesis using h1 h2 h3 h4 h9 h10 h11 t r by simp
qed

text \<open>
  The same-task test of \<^verbatim>\<open>checkDependence\<close> is reached only when the accesses have a
  common loop; it gives no race when the maximum loop depth to check equals the minimum
  object depth, as for two writes to an object allocated in the loop that contains them.
\<close>

lemma same_task_common_loop_no_race:
  assumes "getTaskFor (TI env) (getParent env (GA_I GA1)) =
           getTaskFor (TI env) (getParent env (GA_I GA2))"
    and "getCommonLoop (LI env) (getParent env (GA_I GA1)) (getParent env (GA_I GA2)) = Some CL"
    and "snd (boundByCommonTask env (getParent env (GA_I GA1)) (getParent env (GA_I GA2)) CL
           (minObjDepthOf env GA1 GA2 CL)) = minObjDepthOf env GA1 GA2 CL"
  shows "\<not> checkDependence env D GA1 GA2"
  using assms by (auto simp add: checkDependence_def Let_def split: option.splits prod.splits)

lemma same_task_common_loop_example:
  "\<not> checkDependence exEnvLoop (Some exDep) (exAccess 2 (AllocaInst 5) Mod)
       (exAccess 3 (AllocaInst 5) Mod)"
  apply (rule same_task_common_loop_no_race[where CL = "Loop 0 None"])
    apply (simp add: exEnvLoop_def ex_defs)
   apply (simp add: getCommonLoop_def commonLoopOf_def depthOf_def exEnvLoop_def exLoopLI_def ex_defs)
  apply (simp add: boundByCommonTask_def minObjDepthOf_def exEnvLoop_def exLoopLI_def ex_defs
      repSpindle_def GetRepSpindleInTask_def memAccessInfo_def getPtr_def isMod_def insertObj_def
      getCommonLoopL_def commonLoopOf_def depthOf_def)
  done

subsection \<open>Loop depths\<close>

text \<open>
  A loop has depth at least 1, so the maximum loop depth to check is 0 exactly when
  there is no common loop. The minimum object depth is at most the depth of the common
  loop: the assertion of \<^verbatim>\<open>checkDependence\<close> that compares them holds.
\<close>

lemma getLoopDepth_pos: "0 < getLoopDepth L"
  by (induction L rule: getLoopDepth.induct) simp_all

lemma depthOf_zero: "(depthOf L = 0) = (L = None)"
  using getLoopDepth_pos by (cases L) (auto simp add: depthOf_def)

lemma depthOf_parent: "depthOf (getParentLoop l) < getLoopDepth l"
  by (induction l rule: getLoopDepth.induct) (simp_all add: depthOf_def)

lemma depthOf_climb: "depthOf (climb n L) \<le> depthOf L"
proof (induction n L rule: climb.induct)
  case (3 n l)
  then show ?case using depthOf_parent [of l] by (simp add: depthOf_def)
qed simp_all

lemma depthOf_commonAncestor: "depthOf (commonAncestor A B) \<le> depthOf A"
proof (induction A B rule: commonAncestor.induct)
  case (1 n1 p1 n2 p2)
  then show ?case
    using depthOf_parent [of "Loop n1 p1"] by (auto simp add: depthOf_def)
qed (simp_all add: depthOf_def)

lemma depthOf_commonLoopOf: "depthOf (commonLoopOf A B) \<le> depthOf A"
  unfolding commonLoopOf_def
  using depthOf_commonAncestor depthOf_climb le_trans by blast

lemma depthOf_refine:
  "depthOf (refineCommonObjLoop env objs L) \<le> depthOf L"
proof (induction env objs L rule: refineCommonObjLoop.induct)
  case (3 env Obj objs L)
  have c: "depthOf (getCommonLoopL (LI env) L B) \<le> depthOf (Some L)" for B
    unfolding getCommonLoopL_def by (rule depthOf_commonLoopOf)
  show ?case
  proof (cases Obj)
    case (AllocaInst i)
    then show ?thesis using 3(1) [of i] c [of "getParent env i"] by simp
  next
    case (CallBase i ii r)
    then show ?thesis
      using 3(2) [of i ii r] c [of "getParent env i"] by (auto simp add: depthOf_def)
  qed (simp_all add: depthOf_def)
qed simp_all

lemma minObjDepthOf_le: "minObjDepthOf env GA1 GA2 CL \<le> getLoopDepth CL"
proof -
  have "depthOf (refineCommonObjLoop env objs (Some CL)) \<le> getLoopDepth CL" for objs
    using depthOf_refine [of env objs "Some CL"] by (simp add: depthOf_def)
  then show ?thesis
    by (auto simp add: minObjDepthOf_def Let_def depthOf_def split: prod.splits)
qed

section \<open>Properties of the maybe-parallel-tasks dataflow\<close>

lemma taskListOf_try_emplace [simp]: "taskListOf (try_emplace TL S) s = taskListOf TL s"
  by (simp add: taskListOf_def try_emplace_def split: option.splits)

lemma taskListOf_insertTask:
  "taskListOf (snd (insertTask TL S MP)) s =
     (if s = S \<and> MP \<notin> set (taskListOf TL S) then taskListOf TL S @ [MP] else taskListOf TL s)"
  by (simp add: insertTask_def taskListOf_def)

lemma fst_insertTask: "fst (insertTask TL S MP) = (MP \<notin> set (taskListOf TL S))"
  by (simp add: insertTask_def)

lemma extends_refl: "extends S a a"
  by (simp add: extends_def)

lemma extends_trans: "extends S a b \<Longrightarrow> extends S b c \<Longrightarrow> extends S a c"
  by (auto simp add: extends_def)

lemma extends_try_emplace: "extends S (c, TL) (c, try_emplace TL P)"
  by (simp add: extends_def)

lemma extends_insertTask:
  "insertTask TL S MP = (new, TL') \<Longrightarrow> extends S (c, TL) (if new then False else c, TL')"
  using taskListOf_insertTask [of TL S MP] fst_insertTask [of TL S MP]
  by (auto simp add: extends_def)

lemma extends_insertTasks:
  "extends S (c, TL) (insertTasks ti R S MPs (c, TL))"
proof (induction MPs arbitrary: c TL)
  case Nil
  show ?case by (simp add: extends_refl)
next
  case (Cons MP MPs)
  show ?case
  proof (cases "getDetachSyncRegion ti MP \<noteq> None \<and> R = getDetachSyncRegion ti MP")
    case True
    then show ?thesis using Cons.IH [of c TL] by simp
  next
    case False
    obtain new TL' where i: "insertTask TL S MP = (new, TL')"
      by (cases "insertTask TL S MP")
    have "extends S (c, TL) (if new then False else c, TL')"
      using i by (rule extends_insertTask)
    moreover have "extends S (if new then False else c, TL')
        (insertTasks ti R S MPs (if new then False else c, TL'))"
      by (rule Cons.IH)
    ultimately show ?thesis using False i by (auto intro: extends_trans)
  qed
qed

lemma extends_evaluateEdges:
  "extends S (c, TL) (evaluateEdges li ti S edges (c, TL))"
proof (induction edges arbitrary: c TL)
  case Nil
  show ?case by (simp add: extends_refl)
next
  case (Cons e edges)
  obtain Pred Inc where e: "e = (Pred, Inc)" by (cases e)
  let ?mid = "insertTasks ti (syncRegionOfTerminator ti Inc) S (taskListOf TL Pred)
                (c, try_emplace TL Pred)"
  have 1: "extends S (c, TL) ?mid"
    using extends_try_emplace [of S c TL Pred]
      extends_insertTasks [of S c "try_emplace TL Pred" ti "syncRegionOfTerminator ti Inc"
        "taskListOf TL Pred"]
    by (rule extends_trans)
  have 2: "extends S ?mid (evaluateEdges li ti S edges ?mid)"
    using Cons.IH [of "fst ?mid" "snd ?mid"] by simp
  show ?case
    using Cons.IH [of c TL] extends_trans [OF 1 2] by (simp add: e Let_def)
qed

lemma extends_evaluate: "extends S (True, TL) (evaluate li ti S k TL)"
  unfolding evaluate_def
  using extends_try_emplace [of S True TL S]
    extends_evaluateEdges [of S True "try_emplace TL S" li ti "in_edges ti S"]
  by (rule extends_trans)

lemma wf_try_emplace: "wfTaskLists Tasks TL \<Longrightarrow> wfTaskLists Tasks (try_emplace TL S)"
  by (simp add: wfTaskLists_def)

lemma wf_insertTask:
  "wfTaskLists Tasks TL \<Longrightarrow> MP \<in> Tasks \<Longrightarrow> wfTaskLists Tasks (snd (insertTask TL S MP))"
  by (auto simp add: wfTaskLists_def taskListOf_insertTask)

lemma wf_insertTasks:
  "wfTaskLists Tasks TL \<Longrightarrow> set MPs \<subseteq> Tasks \<Longrightarrow>
   wfTaskLists Tasks (snd (insertTasks ti R S MPs (c, TL)))"
proof (induction MPs arbitrary: c TL)
  case Nil
  then show ?case by simp
next
  case (Cons MP MPs)
  obtain new TL' where i: "insertTask TL S MP = (new, TL')"
    by (cases "insertTask TL S MP")
  have w: "wfTaskLists Tasks TL'"
    using wf_insertTask [of Tasks TL MP S] Cons.prems i by simp
  have s: "set MPs \<subseteq> Tasks" using Cons.prems by simp
  show ?case
  proof (cases "getDetachSyncRegion ti MP \<noteq> None \<and> R = getDetachSyncRegion ti MP")
    case True
    then show ?thesis using Cons.IH [OF Cons.prems(1) s, of c] by simp
  next
    case False
    then show ?thesis
      using Cons.IH [OF w s, of "if new then False else c"] i by auto
  qed
qed

lemma wf_evaluateEdges:
  "wfTaskLists Tasks TL \<Longrightarrow> wfTaskLists Tasks (snd (evaluateEdges li ti S edges (c, TL)))"
proof (induction edges arbitrary: c TL)
  case Nil
  then show ?case by simp
next
  case (Cons e edges)
  obtain Pred Inc where e: "e = (Pred, Inc)" by (cases e)
  let ?mid = "insertTasks ti (syncRegionOfTerminator ti Inc) S (taskListOf TL Pred)
                (c, try_emplace TL Pred)"
  have "set (taskListOf TL Pred) \<subseteq> Tasks"
    using Cons.prems by (simp add: wfTaskLists_def)
  then have "wfTaskLists Tasks (snd ?mid)"
    using Cons.prems by (intro wf_insertTasks wf_try_emplace)
  then have "wfTaskLists Tasks (snd (evaluateEdges li ti S edges (fst ?mid, snd ?mid)))"
    by (rule Cons.IH)
  then show ?case using Cons.IH [OF Cons.prems, of c] by (simp add: e Let_def)
qed

lemma wf_evaluate:
  "wfTaskLists Tasks TL \<Longrightarrow> wfTaskLists Tasks (snd (evaluate li ti S k TL))"
  unfolding evaluate_def by (intro wf_evaluateEdges wf_try_emplace)

lemma wf_length:
  assumes "wfTaskLists Tasks TL" and "finite Tasks"
  shows "length (taskListOf TL s) \<le> card Tasks"
proof -
  have "length (taskListOf TL s) = card (set (taskListOf TL s))"
    using assms(1) by (simp add: wfTaskLists_def distinct_card)
  also have "\<dots> \<le> card Tasks"
    using assms by (intro card_mono) (auto simp add: wfTaskLists_def)
  finally show ?thesis .
qed

lemma extends_length: "extends S a b \<Longrightarrow> length (taskListOf (snd a) s) \<le> length (taskListOf (snd b) s)"
  by (cases "s = S") (auto simp add: extends_def)

lemma extends_strict:
  assumes "extends S a b" and "fst a" and "\<not> fst b"
  shows "length (taskListOf (snd a) S) < length (taskListOf (snd b) S)"
  using assms by (auto simp add: extends_def)

text \<open>
  What one call of \<^verbatim>\<open>evaluate\<close> does to the task lists: the list of every spindle keeps
  its elements (the call only appends, and only to the list of its spindle); well-formed
  lists stay well formed, so that every list has at most as many elements as there are
  tasks; and a call that returns \<open>Complete = false\<close> has made the list of its spindle
  strictly longer. How many rounds the driver \<^verbatim>\<open>TaskInfo::evaluateParallelState\<close> needs
  depends on its schedule; the driver is declared in \<^verbatim>\<open>llvm/Analysis/TapirTaskInfo.h\<close>,
  which is not among the sources.
\<close>

lemma evaluate_only_grows:
  "\<exists>ys. taskListOf (snd (evaluate li ti S k TL)) s = taskListOf TL s @ ys"
  using extends_evaluate [of S TL li ti k] by (cases "s = S") (auto simp add: extends_def)

lemma evaluate_within_tasks:
  assumes "finite Tasks" and "wfTaskLists Tasks TL"
  shows "wfTaskLists Tasks (snd (evaluate li ti S k TL)) \<and>
         length (taskListOf (snd (evaluate li ti S k TL)) s) \<le> card Tasks"
  using wf_evaluate [OF assms(2)] wf_length [OF _ assms(1)] by blast

lemma evaluate_incomplete_grows:
  assumes "\<not> fst (evaluate li ti S k TL)"
  shows "length (taskListOf TL S) < length (taskListOf (snd (evaluate li ti S k TL)) S)"
  using extends_strict [OF extends_evaluate [of S TL li ti k]] assms by simp

section \<open>Properties of the ancestor races\<close>

lemma Result_recordAncestorRace:
  "Result (recordAncestorRace GA P st) =
     Result st @ (if isMod GA then [ancestorRefRecord GA] else []) @ [ancestorModRecord GA]"
  by (simp add: recordAncestorRace_def recordRace_def ancestorRefRecord_def
        ancestorModRecord_def Let_def)

lemma Result_recordOpaqueRace:
  "Result (recordOpaqueRace GA P st) =
     Result st @ (if isMod GA then [opaqueRecord GA] else []) @ [opaqueRecord GA]"
  by (simp add: recordOpaqueRace_def recordRace_def opaqueRecord_def Let_def)

lemma checkObject_argument:
  "checkObject env GA (Argument n byval sret inalloca) st =
     (if byval \<or> sret \<or> inalloca then st
      else recordAncestorRace GA (Argument n byval sret inalloca) st)"
  by (simp add: checkObject_def isAllocFn_def)

lemma Result_checkObject_mono: "set (Result st) \<subseteq> set (Result (checkObject env GA Obj st))"
  by (auto simp add: checkObject_def Result_recordAncestorRace Result_recordOpaqueRace
        split: Value.splits)

lemma fold_Result_mono:
  assumes "\<And>x st. set (Result st) \<subseteq> set (Result (f x st))"
  shows "set (Result st) \<subseteq> set (Result (fold f xs st))"
proof (induction xs arbitrary: st)
  case Nil
  show ?case by simp
next
  case (Cons x xs)
  have "set (Result st) \<subseteq> set (Result (f x st))" by (rule assms)
  also have "\<dots> \<subseteq> set (Result (fold f xs (f x st)))" by (rule Cons.IH)
  finally show ?case by simp
qed

lemma Result_checkAccess_mono: "set (Result st) \<subseteq> set (Result (checkAccess env GA st))"
  unfolding checkAccess_def
  by (cases "getPtr GA") (simp_all add: fold_Result_mono Result_checkObject_mono)

lemma Result_checkSpindleAccesses_mono:
  "set (Result st) \<subseteq> set (Result (checkSpindleAccesses env S st))"
  unfolding checkSpindleAccesses_def by (intro fold_Result_mono Result_checkAccess_mono)

lemma Result_evaluate_mono:
  "set (Result st) \<subseteq> set (Result (evaluateMaybeParallelAccesses env GA1 GA2 st))"
  using evaluate_race_result [of env st GA1 GA2] evaluate_no_race_state [of env st GA1 GA2]
  by (cases "fst (decideLocalRace env (MayBeCapturedCache st) GA1 GA2)") auto

lemma Result_checkSpindleAgainstTasks_mono:
  "set (Result st) \<subseteq> set (Result (checkSpindleAgainstTasks env S st))"
  unfolding checkSpindleAgainstTasks_def
  by (intro fold_Result_mono Result_evaluate_mono)

lemma Result_walk_mono:
  "set (Result st) \<subseteq> set (Result (checkForRacesHelper env T st))"
  "set (Result st) \<subseteq> set (Result (checkSpindles env spindles Visited st))"
  "set (Result st) \<subseteq> set (Result (snd (checkSuccessors env succs Visited st)))"
proof (induction env T st and env spindles Visited st and env succs Visited st
    rule: checkForRacesHelper_checkSpindles_checkSuccessors.induct)
  case (1 env T spindles st)
  then show ?case by simp
next
  case (2 env Visited st)
  show ?case by simp
next
  case (3 env S succs rest Visited st)
  let ?st1 = "checkSpindleAgainstTasks env S (checkSpindleAccesses env S st)"
  obtain V' st' where c: "checkSuccessors env succs Visited ?st1 = (V', st')"
    by (cases "checkSuccessors env succs Visited ?st1")
  have "set (Result st) \<subseteq> set (Result ?st1)"
    using Result_checkSpindleAccesses_mono Result_checkSpindleAgainstTasks_mono by blast
  also have "\<dots> \<subseteq> set (Result st')" using "3.IH"(1) c by simp
  also have "\<dots> \<subseteq> set (Result (checkSpindles env rest V' st'))"
    using "3.IH"(2) c by simp
  finally show ?case using c by simp
next
  case (4 env Visited st)
  show ?case by simp
next
  case (5 env Succ sub rest Visited st)
  show ?case
  proof (cases "Succ \<in> set Visited")
    case True
    then show ?thesis using "5.IH"(1) by simp
  next
    case False
    have "set (Result st) \<subseteq> set (Result (checkForRacesHelper env sub st))"
      using "5.IH"(2) False by simp
    also have "\<dots> \<subseteq> set (Result (snd (checkSuccessors env rest (Succ # Visited)
                                 (checkForRacesHelper env sub st))))"
      using "5.IH"(3) False by simp
    finally show ?thesis using False by simp
  qed
qed

lemma fold_Result_member:
  assumes mono: "\<And>x st. set (Result st) \<subseteq> set (Result (f x st))"
    and step: "\<And>st. r \<in> set (Result (f y st))"
    and mem: "y \<in> set xs"
  shows "r \<in> set (Result (fold f xs st))"
  using mem
proof (induction xs arbitrary: st)
  case Nil
  then show ?case by simp
next
  case (Cons x xs)
  show ?case
  proof (cases "y \<in> set xs")
    case True
    then show ?thesis using Cons.IH by simp
  next
    case False
    then have "x = y" using Cons.prems by simp
    then have "r \<in> set (Result (f x st))" using step by simp
    then show ?thesis using fold_Result_mono [of f "f x st" xs, OF mono] by auto
  qed
qed

lemma checkObject_argument_member:
  "ancestorModRecord GA \<in> set (Result (checkObject env GA (Argument n False False False) st))"
  by (simp add: checkObject_argument Result_recordAncestorRace)

lemma checkAccess_argument_member:
  assumes "getPtr GA \<noteq> None"
    and "Argument n False False False \<in> set (AccessToObjs env (memAccessInfo GA))"
  shows "ancestorModRecord GA \<in> set (Result (checkAccess env GA st))"
proof -
  have "ancestorModRecord GA \<in>
          set (Result (fold (checkObject env GA) (AccessToObjs env (memAccessInfo GA)) st))"
    using assms(2)
    by (intro fold_Result_member [where y = "Argument n False False False"]
          Result_checkObject_mono checkObject_argument_member)
  then show ?thesis using assms(1) by (auto simp add: checkAccess_def)
qed

lemma checkSpindleAccesses_argument_member:
  assumes "GA \<in> set (SpindleAccessMap env S)" and "getPtr GA \<noteq> None"
    and "Argument n False False False \<in> set (AccessToObjs env (memAccessInfo GA))"
  shows "ancestorModRecord GA \<in> set (Result (checkSpindleAccesses env S st))"
  unfolding checkSpindleAccesses_def
  using assms(1)
  by (intro fold_Result_member [where y = GA] Result_checkAccess_mono
        checkAccess_argument_member [OF assms(2,3)])

lemma fst_checkSuccessors:
  "fst (checkSuccessors env succs Visited st) = fst (walkedOfSuccessors succs Visited)"
proof (induction succs arbitrary: Visited st)
  case Nil
  show ?case by simp
next
  case (Cons a succs)
  obtain Succ sub where a: "a = (Succ, sub)" by (cases a)
  show ?case using Cons.IH by (simp add: a split: prod.splits)
qed

lemma walk_argument_member:
  "GA \<in> set (SpindleAccessMap env S) \<and> getPtr GA \<noteq> None \<and>
     Argument n False False False \<in> set (AccessToObjs env (memAccessInfo GA)) \<Longrightarrow>
   S \<in> set (walkedSpindles T) \<Longrightarrow>
       ancestorModRecord GA \<in> set (Result (checkForRacesHelper env T st))"
  "GA \<in> set (SpindleAccessMap env S) \<and> getPtr GA \<noteq> None \<and>
     Argument n False False False \<in> set (AccessToObjs env (memAccessInfo GA)) \<Longrightarrow>
   S \<in> set (walkedOfSpindles spindles Visited) \<Longrightarrow>
       ancestorModRecord GA \<in> set (Result (checkSpindles env spindles Visited st))"
  "GA \<in> set (SpindleAccessMap env S) \<and> getPtr GA \<noteq> None \<and>
     Argument n False False False \<in> set (AccessToObjs env (memAccessInfo GA)) \<Longrightarrow>
   S \<in> set (snd (walkedOfSuccessors succs Visited)) \<Longrightarrow>
       ancestorModRecord GA \<in> set (Result (snd (checkSuccessors env succs Visited st)))"
proof (induction env T st and env spindles Visited st and env succs Visited st
    rule: checkForRacesHelper_checkSpindles_checkSuccessors.induct)
  case (1 env T spindles st)
  then show ?case by simp
next
  case (2 env Visited st)
  then show ?case by simp
next
  case (3 env S' succs rest Visited st)
  note A = "3.prems"(1)
  let ?st1 = "checkSpindleAgainstTasks env S' (checkSpindleAccesses env S' st)"
  obtain V' st' where c: "checkSuccessors env succs Visited ?st1 = (V', st')"
    by (cases "checkSuccessors env succs Visited ?st1")
  obtain W ws where w: "walkedOfSuccessors succs Visited = (W, ws)"
    by (cases "walkedOfSuccessors succs Visited")
  have WV: "W = V'" using fst_checkSuccessors [of env succs Visited ?st1] c w by simp
  from "3.prems"(2) w have "S = S' \<or> S \<in> set ws \<or> S \<in> set (walkedOfSpindles rest W)"
    by auto
  then consider (here) "S = S'" | (succ) "S \<in> set ws"
    | (later) "S \<in> set (walkedOfSpindles rest W)" by blast
  then have "ancestorModRecord GA \<in> set (Result (checkSpindles env rest V' st'))"
  proof cases
    case here
    then have "ancestorModRecord GA \<in> set (Result (checkSpindleAccesses env S' st))"
      using A checkSpindleAccesses_argument_member [of GA env S n st] by simp
    then have "ancestorModRecord GA \<in> set (Result ?st1)"
      using Result_checkSpindleAgainstTasks_mono by blast
    then have "ancestorModRecord GA \<in> set (Result st')"
      using Result_walk_mono(3) [of ?st1 env succs Visited] c by auto
    then show ?thesis using Result_walk_mono(2) by blast
  next
    case succ
    then have "ancestorModRecord GA \<in> set (Result st')"
      using "3.IH"(1) [OF A] c w by simp
    then show ?thesis using Result_walk_mono(2) by blast
  next
    case later
    then show ?thesis using "3.IH"(2) [OF c [symmetric] A] WV by simp
  qed
  then show ?case using c by simp
next
  case (4 env Visited st)
  then show ?case by simp
next
  case (5 env Succ sub rest Visited st)
  note A = "5.prems"(1)
  show ?case
  proof (cases "Succ \<in> set Visited")
    case True
    then show ?thesis using "5.IH"(1) [OF True A] "5.prems"(2) by simp
  next
    case False
    obtain W ws where w: "walkedOfSuccessors rest (Succ # Visited) = (W, ws)"
      by (cases "walkedOfSuccessors rest (Succ # Visited)")
    from "5.prems"(2) False w have "S \<in> set (walkedSpindles sub) \<or> S \<in> set ws" by auto
    then show ?thesis
    proof
      assume "S \<in> set (walkedSpindles sub)"
      then have "ancestorModRecord GA \<in> set (Result (checkForRacesHelper env sub st))"
        using "5.IH"(2) [OF False A] by simp
      then show ?thesis
        using Result_walk_mono(3) [of "checkForRacesHelper env sub st" env rest "Succ # Visited"]
          False by auto
    next
      assume "S \<in> set ws"
      then show ?thesis using "5.IH"(3) [OF False A] False w by simp
    qed
  qed
qed

lemma checkObject_records:
  "r \<in> set (Result (checkObject env GA Obj st)) \<Longrightarrow>
   r \<in> set (Result st) \<or> r = ancestorModRecord GA \<or> r = opaqueRecord GA \<or>
   (r = ancestorRefRecord GA \<and> isMod GA)"
  by (auto simp add: checkObject_def Result_recordAncestorRace Result_recordOpaqueRace
        split: Value.splits if_splits)

lemma ancestorRef_distinct:
  "ancestorRefRecord GA \<noteq> ancestorModRecord GA" "ancestorRefRecord GA \<noteq> opaqueRecord GA"
  by (simp_all add: ancestorRefRecord_def ancestorModRecord_def opaqueRecord_def)

lemma checkObject_ref_only_mod:
  "ancestorRefRecord GA \<in> set (Result (checkObject env GA Obj st)) \<Longrightarrow>
   isMod GA \<or> ancestorRefRecord GA \<in> set (Result st)"
  using checkObject_records [of "ancestorRefRecord GA" env GA Obj st] ancestorRef_distinct [of GA]
  by auto

lemma fold_checkObject_ref_only_mod:
  "ancestorRefRecord GA \<in> set (Result (fold (checkObject env GA) objs st)) \<Longrightarrow>
   isMod GA \<or> ancestorRefRecord GA \<in> set (Result st)"
proof (induction objs arbitrary: st)
  case Nil
  then show ?case by simp
next
  case (Cons Obj objs)
  then have "isMod GA \<or> ancestorRefRecord GA \<in> set (Result (checkObject env GA Obj st))"
    by simp
  then show ?case using checkObject_ref_only_mod by blast
qed

text \<open>
  Claim C8. For a write access of a spindle that \<^verbatim>\<open>checkForRacesHelper\<close> processes, if a
  pointer argument without \<^verbatim>\<open>byval\<close>, \<^verbatim>\<open>sret\<close> and \<^verbatim>\<open>inalloca\<close> is among the underlying
  objects of the access, the result holds an ancestor-mod race record for the access;
  nothing is assumed about loops, tasks or maybe-parallel task lists. For an argument
  with \<^verbatim>\<open>byval\<close>, \<^verbatim>\<open>sret\<close> or \<^verbatim>\<open>inalloca\<close> the object is skipped: the state is unchanged.
\<close>

theorem ancestor_mod_race_for_argument_write:
  assumes "S \<in> set (walkedSpindles T)" and "GA \<in> set (SpindleAccessMap env S)"
    and "isMod GA" and "getPtr GA \<noteq> None"
    and "Argument n False False False \<in> set (AccessToObjs env (memAccessInfo GA))"
  shows "ancestorModRecord GA \<in> set (Result (checkForRacesHelper env T st)) \<and>
         (byval \<or> sret \<or> inalloca \<longrightarrow>
            checkObject env GA' (Argument m byval sret inalloca) st' = st')"
  using walk_argument_member(1) [of GA env S n T st] assms
  by (simp add: checkObject_argument)

text \<open>
  The theorem on a write to a pointer argument in spindle 1, inside the detached task,
  and on an argument passed by value.
\<close>

theorem ancestor_mod_race_for_argument_write_witness:
  "1 \<in> set (walkedSpindles exTree) \<and>
   exAccess 1 exArg Mod \<in> set (SpindleAccessMap exEnvArgs 1) \<and>
   isMod (exAccess 1 exArg Mod) \<and> getPtr (exAccess 1 exArg Mod) \<noteq> None \<and>
   Argument 0 False False False \<in>
     set (AccessToObjs exEnvArgs (memAccessInfo (exAccess 1 exArg Mod))) \<and>
   ancestorModRecord (exAccess 1 exArg Mod) \<in>
     set (Result (checkForRacesHelper exEnvArgs exTree exState)) \<and>
   checkObject exEnvArgs (exAccess 1 (Argument 1 True False False) Mod)
     (Argument 1 True False False) exState = exState"
proof -
  let ?a = "exAccess 1 exArg Mod"
  have h1: "1 \<in> set (walkedSpindles exTree)" by (simp add: exTree_def)
  have h2: "?a \<in> set (SpindleAccessMap exEnvArgs 1)" by (simp add: exEnvArgs_def exEnv_def)
  have h3: "isMod ?a" by (simp add: isMod_def exAccess_def)
  have h4: "getPtr ?a \<noteq> None" by (simp add: getPtr_def exAccess_def)
  have h5: "Argument 0 False False False \<in> set (AccessToObjs exEnvArgs (memAccessInfo ?a))"
    by (simp add: memAccessInfo_def getPtr_def isMod_def exArg_def exEnvArgs_def ex_defs)
  note t = ancestor_mod_race_for_argument_write [OF h1 h2 h3 h4 h5,
      of exState True False False "exAccess 1 (Argument 1 True False False) Mod" 1 exState]
  show ?thesis using h1 h2 h3 h4 h5 t by simp
qed

text \<open>
  A record that a step of the walk adds is never a race-via-ancestor-ref record of an
  access that does not write.
\<close>

lemma checkObject_new_records:
  "r \<in> set (Result (checkObject env GA Obj st)) \<Longrightarrow>
   r \<in> set (Result st) \<or> (RD_Type r = ViaAncestorRef \<longrightarrow> isMod (RD_Access r))"
  using checkObject_records [of r env GA Obj st]
  by (auto simp add: ancestorModRecord_def opaqueRecord_def ancestorRefRecord_def)

lemma fold_new_records:
  assumes "\<And>x st r. r \<in> set (Result (f x st)) \<Longrightarrow> r \<in> set (Result st) \<or> P r"
  shows "r \<in> set (Result (fold f xs st)) \<Longrightarrow> r \<in> set (Result st) \<or> P r"
proof (induction xs arbitrary: st)
  case Nil
  then show ?case by simp
next
  case (Cons x xs)
  then have "r \<in> set (Result (f x st)) \<or> P r" by simp
  then show ?case using assms by blast
qed

lemma checkAccess_new_records:
  "r \<in> set (Result (checkAccess env GA st)) \<Longrightarrow>
   r \<in> set (Result st) \<or> (RD_Type r = ViaAncestorRef \<longrightarrow> isMod (RD_Access r))"
  unfolding checkAccess_def
  by (cases "getPtr GA") (auto dest: fold_new_records [rotated, OF _ checkObject_new_records])

lemma checkSpindleAccesses_new_records:
  "r \<in> set (Result (checkSpindleAccesses env S st)) \<Longrightarrow>
   r \<in> set (Result st) \<or> (RD_Type r = ViaAncestorRef \<longrightarrow> isMod (RD_Access r))"
  unfolding checkSpindleAccesses_def
  by (rule fold_new_records [rotated, OF _ checkAccess_new_records])

lemma evaluate_new_records:
  "r \<in> set (Result (evaluateMaybeParallelAccesses env GA1 GA2 st)) \<Longrightarrow>
   r \<in> set (Result st) \<or> (RD_Type r = ViaAncestorRef \<longrightarrow> isMod (RD_Access r))"
  using evaluate_race_result [of env st GA1 GA2] evaluate_no_race_state [of env st GA1 GA2]
  by (cases "fst (decideLocalRace env (MayBeCapturedCache st) GA1 GA2)") auto

lemma checkSpindleAgainstTasks_new_records:
  "r \<in> set (Result (checkSpindleAgainstTasks env S st)) \<Longrightarrow>
   r \<in> set (Result st) \<or> (RD_Type r = ViaAncestorRef \<longrightarrow> isMod (RD_Access r))"
  unfolding checkSpindleAgainstTasks_def
  by (rule fold_new_records [rotated], assumption,
      rule fold_new_records [rotated], assumption,
      rule fold_new_records [rotated], assumption,
      rule fold_new_records [rotated], assumption,
      rule evaluate_new_records)

lemma walk_new_records:
  "r \<in> set (Result (checkForRacesHelper env T st)) \<Longrightarrow>
     r \<in> set (Result st) \<or> (RD_Type r = ViaAncestorRef \<longrightarrow> isMod (RD_Access r))"
  "r \<in> set (Result (checkSpindles env spindles Visited st)) \<Longrightarrow>
     r \<in> set (Result st) \<or> (RD_Type r = ViaAncestorRef \<longrightarrow> isMod (RD_Access r))"
  "r \<in> set (Result (snd (checkSuccessors env succs Visited st))) \<Longrightarrow>
     r \<in> set (Result st) \<or> (RD_Type r = ViaAncestorRef \<longrightarrow> isMod (RD_Access r))"
proof (induction env T st and env spindles Visited st and env succs Visited st
    rule: checkForRacesHelper_checkSpindles_checkSuccessors.induct)
  case (1 env T spindles st)
  then show ?case by simp
next
  case (2 env Visited st)
  then show ?case by simp
next
  case (3 env S succs rest Visited st)
  let ?P = "RD_Type r = ViaAncestorRef \<longrightarrow> isMod (RD_Access r)"
  let ?st0 = "checkSpindleAccesses env S st"
  let ?st1 = "checkSpindleAgainstTasks env S ?st0"
  obtain V' st' where c: "checkSuccessors env succs Visited ?st1 = (V', st')"
    by (cases "checkSuccessors env succs Visited ?st1")
  from "3.prems" c have "r \<in> set (Result (checkSpindles env rest V' st'))" by simp
  then have "r \<in> set (Result st') \<or> ?P" using "3.IH"(2) [OF c [symmetric]] by simp
  then have "r \<in> set (Result ?st1) \<or> ?P" using "3.IH"(1) c by auto
  then have "r \<in> set (Result ?st0) \<or> ?P"
    using checkSpindleAgainstTasks_new_records by blast
  then show ?case using checkSpindleAccesses_new_records by blast
next
  case (4 env Visited st)
  then show ?case by simp
next
  case (5 env Succ sub rest Visited st)
  let ?P = "RD_Type r = ViaAncestorRef \<longrightarrow> isMod (RD_Access r)"
  show ?case
  proof (cases "Succ \<in> set Visited")
    case True
    then show ?thesis using "5.IH"(1) "5.prems" by simp
  next
    case False
    then have "r \<in> set (Result (checkForRacesHelper env sub st)) \<or> ?P"
      using "5.IH"(3) "5.prems" by simp
    then show ?thesis using "5.IH"(2) False by blast
  qed
qed

text \<open>
  Claim C10. For every access with a location, read-only or not, that is retained for a
  spindle that \<^verbatim>\<open>checkForRacesHelper\<close> processes and that has a pointer argument without
  \<^verbatim>\<open>byval\<close>, \<^verbatim>\<open>sret\<close> and \<^verbatim>\<open>inalloca\<close> among its underlying objects: the result of
  \<^verbatim>\<open>checkForRacesHelper\<close> holds a race-via-ancestor-mod record for the access, and it
  holds a race-via-ancestor-ref record for the access only if the access is \<^verbatim>\<open>Mod\<close> or the
  record was there before. The step for that object appends the ancestor-mod record,
  preceded by the ancestor-ref record exactly when the access is \<^verbatim>\<open>Mod\<close>, and the same
  holds after the loop over the objects of the access.
\<close>

theorem ancestor_race_read_or_write:
  assumes "S \<in> set (walkedSpindles T)" and "GA \<in> set (SpindleAccessMap env S)"
    and "getPtr GA \<noteq> None"
    and "Argument n False False False \<in> set (AccessToObjs env (memAccessInfo GA))"
  shows "ancestorModRecord GA \<in> set (Result (checkForRacesHelper env T st)) \<and>
         (ancestorRefRecord GA \<in> set (Result (checkForRacesHelper env T st)) \<longrightarrow>
            isMod GA \<or> ancestorRefRecord GA \<in> set (Result st)) \<and>
         Result (checkObject env GA (Argument n False False False) st) =
           Result st @ (if isMod GA then [ancestorRefRecord GA] else []) @ [ancestorModRecord GA] \<and>
         ancestorModRecord GA \<in> set (Result (checkAccess env GA st)) \<and>
         (ancestorRefRecord GA \<in> set (Result (checkAccess env GA st)) \<longrightarrow>
            isMod GA \<or> ancestorRefRecord GA \<in> set (Result st))"
proof -
  have w: "ancestorModRecord GA \<in> set (Result (checkForRacesHelper env T st))"
    using walk_argument_member(1) [of GA env S n T st] assms by simp
  have v: "isMod GA \<or> ancestorRefRecord GA \<in> set (Result st)"
    if "ancestorRefRecord GA \<in> set (Result (checkForRacesHelper env T st))"
    using walk_new_records(1) [OF that] by (auto simp add: ancestorRefRecord_def)
  have a: "Result (checkObject env GA (Argument n False False False) st) =
           Result st @ (if isMod GA then [ancestorRefRecord GA] else []) @ [ancestorModRecord GA]"
    by (simp add: checkObject_argument Result_recordAncestorRace)
  have b: "ancestorModRecord GA \<in> set (Result (checkAccess env GA st))"
    using assms(3,4) by (rule checkAccess_argument_member)
  have c: "isMod GA \<or> ancestorRefRecord GA \<in> set (Result st)"
    if "ancestorRefRecord GA \<in> set (Result (checkAccess env GA st))"
    using that assms(3) fold_checkObject_ref_only_mod [of GA env _ st]
    by (auto simp add: checkAccess_def)
  show ?thesis using w v a b c by blast
qed

text \<open>
  The theorem on a read of a pointer argument in spindle 1, inside the detached task:
  the walk adds the ancestor-mod record and no ancestor-ref record.
\<close>

theorem ancestor_race_read_or_write_witness:
  "1 \<in> set (walkedSpindles exTree) \<and>
   exAccess 1 exArg Ref \<in> set (SpindleAccessMap exEnvArgs 1) \<and>
   getPtr (exAccess 1 exArg Ref) \<noteq> None \<and>
   Argument 0 False False False \<in>
     set (AccessToObjs exEnvArgs (memAccessInfo (exAccess 1 exArg Ref))) \<and>
   \<not> isMod (exAccess 1 exArg Ref) \<and>
   ancestorModRecord (exAccess 1 exArg Ref) \<in>
     set (Result (checkForRacesHelper exEnvArgs exTree exState)) \<and>
   ancestorRefRecord (exAccess 1 exArg Ref) \<notin>
     set (Result (checkForRacesHelper exEnvArgs exTree exState)) \<and>
   Result (checkObject exEnvArgs (exAccess 1 exArg Ref) (Argument 0 False False False) exState) =
     [ancestorModRecord (exAccess 1 exArg Ref)] \<and>
   ancestorModRecord (exAccess 1 exArg Ref) \<in>
     set (Result (checkAccess exEnvArgs (exAccess 1 exArg Ref) exState)) \<and>
   ancestorRefRecord (exAccess 1 exArg Ref) \<notin>
     set (Result (checkAccess exEnvArgs (exAccess 1 exArg Ref) exState))"
proof -
  let ?a = "exAccess 1 exArg Ref"
  have h1: "1 \<in> set (walkedSpindles exTree)" by (simp add: exTree_def)
  have h2: "?a \<in> set (SpindleAccessMap exEnvArgs 1)" by (simp add: exEnvArgs_def exEnv_def)
  have h3: "getPtr ?a \<noteq> None" by (simp add: getPtr_def exAccess_def)
  have h4: "Argument 0 False False False \<in> set (AccessToObjs exEnvArgs (memAccessInfo ?a))"
    by (simp add: memAccessInfo_def getPtr_def isMod_def exArg_def exEnvArgs_def ex_defs)
  have h5: "\<not> isMod ?a" by (simp add: isMod_def exAccess_def)
  have h6: "ancestorRefRecord ?a \<notin> set (Result exState)" by (simp add: exState_def)
  note t = ancestor_race_read_or_write [OF h1 h2 h3 h4, of exState]
  have r: "Result (checkObject exEnvArgs ?a (Argument 0 False False False) exState) =
             [ancestorModRecord ?a]"
    using t h5 by (simp add: exState_def)
  show ?thesis using h1 h2 h3 h4 h5 h6 r t by blast
qed

end
